theory Spec2Isabelle
  imports Main
begin

section \<open>User data (requests.go and the config-drive file)\<close>

text \<open>
  A Go \<open>error\<close> is modelled by its message; \<open>nil\<close> is \<open>None\<close> in an
  \<open>error option\<close>, and a function returning \<open>(T, error)\<close> with one of the two set
  returns \<open>error + T\<close>. A Go \<open>string\<close> and a \<open>[]byte\<close> are both a list of bytes,
  so both are \<open>string\<close> here and the conversions \<open>string(b)\<close>, \<open>[]byte(s)\<close> are the
  identity.
\<close>

type_synonym error = string

text \<open>
  \<open>UserDataBuilder\<close> is an interface with the two implementers \<open>UserDataMap\<close> (a
  \<open>map[string]interface{}\<close>, here a value of the type parameter \<open>'j\<close>) and
  \<open>UserDataString\<close>.
\<close>

datatype 'j UserDataBuilder = UserDataMap 'j | UserDataString string

text \<open>
  What this code calls outside the repository: \<open>json.MarshalIndent\<close>,
  \<open>json.Marshal\<close> and \<open>base64.StdEncoding.EncodeToString\<close> of the Go standard
  library, and the two codecs that packing a directory stands for: the ISO 9660 image
  of a directory tree (a map from relative path to file content) and gzip.
\<close>

record 'j library =
  MarshalIndent :: "'j \<Rightarrow> string \<Rightarrow> string \<Rightarrow> error + string"
  Marshal :: "'j \<Rightarrow> error + string"
  EncodeToString :: "string \<Rightarrow> string"
  iso9660 :: "(string \<Rightarrow> string option) \<Rightarrow> string"
  gzip :: "string \<Rightarrow> string"

text \<open>
  \<open>ToUserData\<close>. The map variant returns what \<open>json.MarshalIndent(data, "", "    ")\<close>
  returns; the string variant returns the bytes of the string and a nil error.
\<close>

fun ToUserData :: "'j library \<Rightarrow> 'j UserDataBuilder \<Rightarrow> error + string" where
  "ToUserData lib (UserDataMap data) = MarshalIndent lib data [] ''    ''"
| "ToUserData lib (UserDataString data) = Inr data"

section \<open>The config drive\<close>

text \<open>
  The struct \<open>ConfigDrive\<close>: a nil interface and a nil map are \<open>None\<close>.
\<close>

record 'j ConfigDrive =
  UserData :: "'j UserDataBuilder option"
  MetaData :: "'j option"
  NetworkData :: "'j option"

text \<open>
  What the operating system answers during one build: the name of the temporary
  directory or an error, and the errors of \<open>os.MkdirAll\<close>, of \<open>ioutil.WriteFile\<close> and
  of packing, per path. The files written are a map from path to content.
\<close>

record host =
  TempDir_result :: "error + string"
  MkdirAll_result :: "string \<Rightarrow> error option"
  WriteFile_result :: "string \<Rightarrow> error option"
  Pack_result :: "string \<Rightarrow> error option"

type_synonym files = "string \<Rightarrow> string option"

text \<open>\<open>ioutil.WriteFile(path, data, 0644)\<close>: the error, or the files with \<open>path\<close> set.\<close>

definition WriteFile :: "host \<Rightarrow> string \<Rightarrow> string \<Rightarrow> files \<Rightarrow> error + files" where
  "WriteFile h path data fs =
    (case WriteFile_result h path of Some e \<Rightarrow> Inl e | None \<Rightarrow> Inr (fs(path \<mapsto> data)))"

text \<open>The tree below a directory: its files by their path relative to it.\<close>

definition tree :: "files \<Rightarrow> string \<Rightarrow> files" where
  "tree fs directory = (\<lambda>rel. fs (directory @ ''/'' @ rel))"

text \<open>
  Modelled from the spec: \<open>PackDirectoryAsISO\<close>, which the build calls and which is not
  among the sources. Section 4.2, steps 6 and 7: package the entire staged directory
  tree into a single ISO-9660 image, compress the image with gzip; a failure aborts the
  build with its error.
\<close>

definition PackDirectoryAsISO :: "'j library \<Rightarrow> host \<Rightarrow> files \<Rightarrow> string \<Rightarrow> error + string" where
  "PackDirectoryAsISO lib h fs directory =
    (case Pack_result h directory of
       Some e \<Rightarrow> Inl e
     | None \<Rightarrow> Inr (gzip lib (iso9660 lib (tree fs directory))))"

text \<open>
  \<open>ConfigDrive.ToConfigDrive\<close>. Every \<open>return "", err\<close> of the code is an \<open>Inl err\<close>;
  on success the result is the returned string, and with it the files as the build
  leaves them. \<open>filepath.FromSlash\<close> is the identity, as on a system whose path
  separator is the slash.
\<close>

definition ToConfigDrive ::
  "'j library \<Rightarrow> host \<Rightarrow> 'j ConfigDrive \<Rightarrow> files \<Rightarrow> error + string \<times> files" where
  "ToConfigDrive lib h configDrive fs =
    (case TempDir_result h of
       Inl err \<Rightarrow> Inl err
     | Inr directory \<Rightarrow>
    let path = directory @ ''/openstack/latest'' in
     case MkdirAll_result h path of
       Some err \<Rightarrow> Inl err
     | None \<Rightarrow>
     case (case UserData configDrive of
             None \<Rightarrow> Inr fs
           | Some u \<Rightarrow>
              (case ToUserData lib u of
                 Inl err \<Rightarrow> Inl err
               | Inr data \<Rightarrow> WriteFile h (path @ ''/user_data'') data fs)) of
       Inl err \<Rightarrow> Inl err
     | Inr fs1 \<Rightarrow>
     case (case MetaData configDrive of
             None \<Rightarrow> Inr fs1
           | Some m \<Rightarrow>
              (case Marshal lib m of
                 Inl err \<Rightarrow> Inl err
               | Inr data \<Rightarrow> WriteFile h (path @ ''/meta_data.json'') data fs1)) of
       Inl err \<Rightarrow> Inl err
     | Inr fs2 \<Rightarrow>
     case (case NetworkData configDrive of
             None \<Rightarrow> Inr fs2
           | Some n \<Rightarrow>
              (case Marshal lib n of
                 Inl err \<Rightarrow> Inl err
               | Inr data \<Rightarrow> WriteFile h (path @ ''/network_data.json'') data fs2)) of
       Inl err \<Rightarrow> Inl err
     | Inr fs3 \<Rightarrow>
     case PackDirectoryAsISO lib h fs3 directory of
       Inl err \<Rightarrow> Inl err
     | Inr result \<Rightarrow> Inr (EncodeToString lib result, fs3))"

section \<open>The remote service, the progress channel and the trace of a run\<close>

text \<open>
  The orchestrator reaches the provisioning service through three calls of the imported
  gophercloud package: \<open>nodes.Update\<close>, \<open>nodes.ChangeProvisionState\<close> and
  \<open>nodes.Get\<close>. A \<open>remote\<close> fixes what they answer during one run: the error of the
  single patch call, the error of the state change per target, and the answer of the
  k-th poll, counted from 0 over the whole run. \<open>Get(...).Extract()\<close> returns a node
  pointer and an error, both kept as the code gets them (\<open>None\<close> is \<open>nil\<close>).
\<close>

record Node =
  Name :: string
  ProvisionState :: string

record UpdateOperation =
  Op :: string
  Path :: string
  Value :: "(string \<times> string) list"

record remote =
  Update_result :: "error option"
  ChangeProvisionState_result :: "string \<Rightarrow> error option"
  Get_result :: "nat \<Rightarrow> Node option \<times> error option"

text \<open>The provision states of gophercloud's \<open>nodes\<close> package that the code compares with.\<close>

definition Manageable :: string where "Manageable = ''manageable''"
definition Verifying :: string where "Verifying = ''verifying''"
definition Available :: string where "Available = ''available''"
definition Cleaning :: string where "Cleaning = ''cleaning''"
definition Active :: string where "Active = ''active''"
definition DeployWait :: string where "DeployWait = ''wait call-back''"
definition Deploying :: string where "Deploying = ''deploying''"

text \<open>
  Everything a run does to the outside is an event of its trace, in order: a value sent
  on the progress channel, the close of the channel, a remote call with its arguments,
  and a \<open>time.Sleep\<close> of five seconds.
\<close>

datatype 'v event =
    Sent 'v
  | Closed
  | CallUpdate string "UpdateOperation list"
  | CallChangeProvisionState string string string
  | CallGet string
  | Slept

fun is_CallGet :: "'v event \<Rightarrow> bool" where
  "is_CallGet (CallGet _) = True"
| "is_CallGet _ = False"

text \<open>The number of polls made so far: the index of the next answer of \<open>Get_result\<close>.\<close>

definition gets :: "'v event list \<Rightarrow> nat" where
  "gets t = length (filter is_CallGet t)"

text \<open>
  A channel is unbuffered, so a send completes only when somebody receives. \<open>Drained\<close>
  is a channel whose other end is read until it is closed (as \<open>for x := range status\<close>
  in the caller of tmp/deploy.go); \<open>Unread\<close> is a channel nobody receives from. A nil
  channel is \<open>None\<close>. A send on a nil or unread channel blocks for ever: \<open>send\<close> then
  returns \<open>None\<close>, and otherwise the trace with the value appended.
\<close>

datatype chan = Drained | Unread

definition send :: "chan option \<Rightarrow> 'v \<Rightarrow> 'v event list \<Rightarrow> 'v event list option" where
  "send c v t = (case c of Some Drained \<Rightarrow> Some (t @ [Sent v]) | _ \<Rightarrow> None)"

text \<open>
  How a call ends: it returns its error value, it blocks for ever in a channel send, or
  it panics on a nil dereference; each with the deployment and the trace at that point.
  A polling loop that never ends is the value \<open>None\<close> of the option type around it.
\<close>

datatype ('d, 'v) outcome =
    Returned "error option" 'd "'v event list"
  | Blocked 'd "'v event list"
  | Panicked 'd "'v event list"

text \<open>
  A Go loop \<open>for { ... }\<close> over the loop state \<open>'s\<close>. One run of its body ends in the
  next iteration (\<open>Again\<close>), in a \<open>break\<close>, or by leaving the enclosing function
  (\<open>Leave\<close>: a \<open>return\<close>, a blocked send, a panic). The loop returns \<open>Inl\<close> with the
  state at the \<open>break\<close>, or \<open>Inr\<close> with how the function was left; a loop that goes
  round for ever has the value \<open>None\<close>.
\<close>

datatype ('s, 'o) iteration = Again 's | Break 's | Leave 'o

partial_function (option) for_loop :: "('s \<Rightarrow> ('s, 'o) iteration) \<Rightarrow> 's \<Rightarrow> ('s + 'o) option" where
  "for_loop body s =
    (case body s of
       Again s' \<Rightarrow> for_loop body s'
     | Break s' \<Rightarrow> Some (Inl s')
     | Leave out \<Rightarrow> Some (Inr out))"

declare for_loop.simps [code]

section \<open>deployment.go, the revision with an integer progress channel\<close>

datatype DeploymentState =
    StateBegin | StateConfigure | StateManage | StateWaitManage | StateProvide
  | StateWaitProvide | StateDeploy | StateWaitDeploy | StateDone

definition StateBeginPercent :: int where "StateBeginPercent = 0"
definition StateConfigurePercent :: int where "StateConfigurePercent = 10"
definition StateManagePercent :: int where "StateManagePercent = 15"
definition StateWaitManagePercent :: int where "StateWaitManagePercent = 20"
definition StateProvidePercent :: int where "StateProvidePercent = 25"
definition StateWaitProvidePercent :: int where "StateWaitProvidePercent = 30"
definition StateDeployPercent :: int where "StateDeployPercent = 35"
definition StateWaitDeployPercent :: int where "StateWaitDeployPercent = 95"
definition StateDonePercent :: int where "StateDonePercent = 100"

text \<open>
  The struct \<open>Deployment\<close>. \<open>ConfigDrive\<close> is an interface value with the one method
  \<open>ToConfigDrive\<close>; it is kept as what that method returns, \<open>None\<close> being the nil
  interface. The field \<open>client\<close> is only handed on to the remote calls and is left out.
\<close>

record Deployment =
  NodeUUID :: string
  UpdateOpts :: "UpdateOperation list"
  ConfigDrive :: "(error + string) option"
  Error :: "error option"
  Timeout :: int
  Delay :: int
  currentState :: DeploymentState
  currentPercent :: int
  status :: "chan option"

type_synonym run = "(Deployment, int) outcome option"

text \<open>The value of the local variable \<open>nextState\<close> of \<open>Deployment.nextState\<close>.\<close>

datatype func =
    Fconfigure | Fmanage | FwaitManage | Fprovide | FwaitProvide | Fdeploy | FwaitDeploy | Fdone

text \<open>\<open>Deployment.done\<close>: send 100, return the stored error.\<close>

definition done' :: "Deployment \<Rightarrow> int event list \<Rightarrow> run" where
  "done' d t =
    (case send (status d) StateDonePercent t of
       None \<Rightarrow> Some (Blocked d t)
     | Some t' \<Rightarrow> Some (Returned (Error d) d t'))"

text \<open>The bodies of the three polling loops; the loop state is the deployment and the trace.\<close>

fun waitManage_body ::
  "remote \<Rightarrow> Deployment \<times> int event list
    \<Rightarrow> (Deployment \<times> int event list, (Deployment, int) outcome) iteration" where
  "waitManage_body rem (d, t) =
    (case Get_result rem (gets t) of (node, err) \<Rightarrow>
      let t1 = t @ [CallGet (NodeUUID d)] in
      (case err of
         Some e \<Rightarrow> Break (d\<lparr>Error := Some e\<rparr>, t1)
       | None \<Rightarrow>
          (case node of
             None \<Rightarrow> Leave (Panicked d t1)
           | Some n \<Rightarrow>
              if ProvisionState n = Manageable then Break (d, t1)
              else if ProvisionState n = Verifying then Again (d, t1 @ [Slept])
              else Again
                (d\<lparr>Error := Some (''manage failed: '' @ Name n @ '' current state is: ''
                    @ ProvisionState n)\<rparr>, t1))))"

fun waitProvide_body ::
  "remote \<Rightarrow> Deployment \<times> int event list
    \<Rightarrow> (Deployment \<times> int event list, (Deployment, int) outcome) iteration" where
  "waitProvide_body rem (d, t) =
    (case Get_result rem (gets t) of (node, err) \<Rightarrow>
      let t1 = t @ [CallGet (NodeUUID d)] in
      (case err of
         Some e \<Rightarrow> Break (d\<lparr>Error := Some e\<rparr>, t1)
       | None \<Rightarrow>
          (case node of
             None \<Rightarrow> Leave (Panicked d t1)
           | Some n \<Rightarrow>
              if ProvisionState n = Available then Break (d, t1)
              else if ProvisionState n = Cleaning then Again (d, t1 @ [Slept])
              else Leave (Returned
                (Some (''provide failed, '' @ Name n @ '' current state is: ''
                    @ ProvisionState n)) d t1))))"

fun waitDeploy_body ::
  "remote \<Rightarrow> Deployment \<times> int event list
    \<Rightarrow> (Deployment \<times> int event list, (Deployment, int) outcome) iteration" where
  "waitDeploy_body rem (d, t) =
    (case Get_result rem (gets t) of (node, err) \<Rightarrow>
      let t1 = t @ [CallGet (NodeUUID d)] in
      (case err of
         Some e \<Rightarrow> Break (d\<lparr>Error := Some e\<rparr>, t1)
       | None \<Rightarrow>
          (case node of
             None \<Rightarrow> Leave (Panicked d t1)
           | Some n \<Rightarrow>
              if ProvisionState n = Active then Break (d, t1)
              else if ProvisionState n = DeployWait \<or> ProvisionState n = Deploying then
                (if currentPercent d < StateWaitDeployPercent then
                   (let d1 = d\<lparr>currentPercent := currentPercent d + 2\<rparr> in
                    case send (status d1) (currentPercent d1) t1 of
                      None \<Rightarrow> Leave (Blocked d1 t1)
                    | Some t2 \<Rightarrow> Again (d1, t2 @ [Slept]))
                 else Again (d, t1 @ [Slept]))
              else Break
                (d\<lparr>Error := Some (''deploy failed: '' @ Name n @ '' current state is: ''
                    @ ProvisionState n)\<rparr>, t1))))"

text \<open>
  The state machine. \<open>nextState\<close> dispatches on \<open>currentState\<close>, stores the next state
  and the percentage, sends the percentage and calls the function it chose; each of
  those functions ends by calling \<open>nextState\<close> again. The recursion is the code's own,
  and it ends because every call of \<open>nextState\<close> moves \<open>currentState\<close> one step
  forward in the order measured by \<open>rank\<close>.
\<close>

definition rank :: "DeploymentState \<Rightarrow> nat" where
  "rank s = (case s of StateBegin \<Rightarrow> 0 | StateConfigure \<Rightarrow> 1 | StateManage \<Rightarrow> 2
     | StateWaitManage \<Rightarrow> 3 | StateProvide \<Rightarrow> 4 | StateWaitProvide \<Rightarrow> 5 | StateDeploy \<Rightarrow> 6
     | StateWaitDeploy \<Rightarrow> 7 | StateDone \<Rightarrow> 8)"

text \<open>
  The \<open>switch\<close> statement of \<open>nextState\<close>: the function to call next and the
  deployment with the fields the case assigns; \<open>None\<close> is the \<open>default\<close> case.
\<close>

definition switch :: "Deployment \<Rightarrow> (func \<times> Deployment) option" where
  "switch d =
    (case currentState d of
       StateBegin \<Rightarrow> Some (Fconfigure, d\<lparr>currentState := StateConfigure\<rparr>)
     | StateConfigure \<Rightarrow> Some (Fmanage, d\<lparr>currentState := StateManage\<rparr>)
     | StateManage \<Rightarrow>
         Some (FwaitManage,
           d\<lparr>currentPercent := StateConfigurePercent, currentState := StateWaitManage\<rparr>)
     | StateWaitManage \<Rightarrow>
         Some (Fprovide,
           d\<lparr>currentPercent := StateManagePercent, currentState := StateProvide\<rparr>)
     | StateProvide \<Rightarrow>
         Some (FwaitProvide,
           d\<lparr>currentPercent := StateWaitManagePercent, currentState := StateWaitProvide\<rparr>)
     | StateWaitProvide \<Rightarrow>
         Some (Fdeploy,
           d\<lparr>currentPercent := StateProvidePercent, currentState := StateDeploy\<rparr>)
     | StateDeploy \<Rightarrow>
         Some (FwaitDeploy,
           d\<lparr>currentPercent := StateWaitProvidePercent, currentState := StateWaitDeploy\<rparr>)
     | StateWaitDeploy \<Rightarrow>
         Some (Fdone,
           d\<lparr>currentPercent := StateDeployPercent, currentState := StateDone\<rparr>)
     | StateDone \<Rightarrow> None)"

function nextState :: "remote \<Rightarrow> Deployment \<Rightarrow> int event list \<Rightarrow> run"
  and configure :: "remote \<Rightarrow> Deployment \<Rightarrow> int event list \<Rightarrow> run"
  and manage :: "remote \<Rightarrow> Deployment \<Rightarrow> int event list \<Rightarrow> run"
  and waitManage :: "remote \<Rightarrow> Deployment \<Rightarrow> int event list \<Rightarrow> run"
  and provide :: "remote \<Rightarrow> Deployment \<Rightarrow> int event list \<Rightarrow> run"
  and waitProvide :: "remote \<Rightarrow> Deployment \<Rightarrow> int event list \<Rightarrow> run"
  and deploy :: "remote \<Rightarrow> Deployment \<Rightarrow> int event list \<Rightarrow> run"
  and waitDeploy :: "remote \<Rightarrow> Deployment \<Rightarrow> int event list \<Rightarrow> run"
where
  "nextState rem d t =
    (if Error d \<noteq> None then done' d t
     else
      (case switch d of
         None \<Rightarrow> Some (Returned (Some ''unknown state'') d t)
       | Some (f, d') \<Rightarrow>
          (case send (status d') (currentPercent d') t of
             None \<Rightarrow> Some (Blocked d' t)
           | Some t' \<Rightarrow>
              (case f of
                 Fconfigure \<Rightarrow> configure rem d' t'
               | Fmanage \<Rightarrow> manage rem d' t'
               | FwaitManage \<Rightarrow> waitManage rem d' t'
               | Fprovide \<Rightarrow> provide rem d' t'
               | FwaitProvide \<Rightarrow> waitProvide rem d' t'
               | Fdeploy \<Rightarrow> deploy rem d' t'
               | FwaitDeploy \<Rightarrow> waitDeploy rem d' t'
               | Fdone \<Rightarrow> done' d' t'))))"
| "configure rem d t =
    (if length (UpdateOpts d) \<noteq> 0 then
       (let t1 = t @ [CallUpdate (NodeUUID d) (UpdateOpts d)] in
        case Update_result rem of
          Some e \<Rightarrow> nextState rem (d\<lparr>Error := Some e\<rparr>) t1
        | None \<Rightarrow> nextState rem d t1)
     else nextState rem d t)"
| "manage rem d t =
    (let t1 = t @ [CallChangeProvisionState (NodeUUID d) ''manage'' []] in
     case ChangeProvisionState_result rem ''manage'' of
       Some e \<Rightarrow> nextState rem (d\<lparr>Error := Some e\<rparr>) t1
     | None \<Rightarrow> nextState rem d t1)"
| "waitManage rem d t =
    (case for_loop (waitManage_body rem) (d, t) of
       None \<Rightarrow> None
     | Some (Inr out) \<Rightarrow> Some out
     | Some (Inl (d', t')) \<Rightarrow> nextState rem d' t')"
| "provide rem d t =
    (let t1 = t @ [CallChangeProvisionState (NodeUUID d) ''provide'' []] in
     nextState rem (d\<lparr>Error := ChangeProvisionState_result rem ''provide''\<rparr>) t1)"
| "waitProvide rem d t =
    (case for_loop (waitProvide_body rem) (d, t) of
       None \<Rightarrow> None
     | Some (Inr out) \<Rightarrow> Some out
     | Some (Inl (d', t')) \<Rightarrow> nextState rem d' t')"
| "deploy rem d t =
    (case ConfigDrive d of
       None \<Rightarrow> Some (Panicked d t)
     | Some (Inl err) \<Rightarrow> nextState rem (d\<lparr>Error := Some err\<rparr>) t
     | Some (Inr configDrive) \<Rightarrow>
        (let t1 = t @ [CallChangeProvisionState (NodeUUID d) ''active'' configDrive] in
         nextState rem (d\<lparr>Error := ChangeProvisionState_result rem ''active''\<rparr>) t1))"
| "waitDeploy rem d t =
    (case for_loop (waitDeploy_body rem) (d, t) of
       None \<Rightarrow> None
     | Some (Inr out) \<Rightarrow> Some out
     | Some (Inl (d', t')) \<Rightarrow> nextState rem d' t')"
  by pat_completeness auto

text \<open>
  \<open>defer close(deployment.status)\<close> runs when \<open>Deploy\<close> returns or panics, and never
  when the run is blocked or the polling does not end.
\<close>

definition close_deferred :: "('d, 'v) outcome option \<Rightarrow> ('d, 'v) outcome option" where
  "close_deferred r =
    (case r of
       None \<Rightarrow> None
     | Some (Returned e d t) \<Rightarrow> Some (Returned e d (t @ [Closed]))
     | Some (Panicked d t) \<Rightarrow> Some (Panicked d (t @ [Closed]))
     | Some (Blocked d t) \<Rightarrow> Some (Blocked d t))"

text \<open>
  \<open>Deploy\<close>. The caller's channel is the argument \<open>percent\<close>; when it is nil the code
  makes a channel of its own with \<open>make(chan<- int)\<close>, which nobody can receive from.
\<close>

definition Deploy :: "remote \<Rightarrow> Deployment \<Rightarrow> chan option \<Rightarrow> run" where
  "Deploy rem deployment percent =
    (let d = deployment\<lparr>currentState := StateBegin\<rparr> in
     if percent \<noteq> None then
       (let d1 = d\<lparr>status := percent\<rparr> in
        case send (status d1) StateBeginPercent [] of
          None \<Rightarrow> Some (Blocked d1 [])
        | Some t \<Rightarrow> close_deferred (nextState rem d1 t))
     else close_deferred (nextState rem (d\<lparr>status := Some Unread\<rparr>) []))"

section \<open>deployment.go, the revision with a channel of states\<close>

text \<open>
  The other revision of the file sends values of the struct \<open>DeploymentState\<close> (a name
  and a percentage). Every name taken from this revision carries the suffix \<open>_s\<close>.
\<close>

record DeploymentState_s =
  Name_s :: string
  Percentage_s :: int

definition StateBegin_s :: DeploymentState_s where
  "StateBegin_s = \<lparr>Name_s = ''BEGIN'', Percentage_s = 0\<rparr>"
definition StateConfigure_s :: DeploymentState_s where
  "StateConfigure_s = \<lparr>Name_s = ''CONFIGURE'', Percentage_s = 5\<rparr>"
definition StateManage_s :: DeploymentState_s where
  "StateManage_s = \<lparr>Name_s = ''MANAGE'', Percentage_s = 15\<rparr>"
definition StateWaitManage_s :: DeploymentState_s where
  "StateWaitManage_s = \<lparr>Name_s = ''WAIT_MANAGE'', Percentage_s = 20\<rparr>"
definition StateProvide_s :: DeploymentState_s where
  "StateProvide_s = \<lparr>Name_s = ''PROVIDE'', Percentage_s = 30\<rparr>"
definition StateWaitProvide_s :: DeploymentState_s where
  "StateWaitProvide_s = \<lparr>Name_s = ''WAIT_PROVIDE'', Percentage_s = 35\<rparr>"
definition StateDeploy_s :: DeploymentState_s where
  "StateDeploy_s = \<lparr>Name_s = ''DEPLOY'', Percentage_s = 40\<rparr>"
definition StateWaitDeploy_s :: DeploymentState_s where
  "StateWaitDeploy_s = \<lparr>Name_s = ''WAIT_DEPLOY'', Percentage_s = 50\<rparr>"
definition StateDone_s :: DeploymentState_s where
  "StateDone_s = \<lparr>Name_s = ''DONE'', Percentage_s = 100\<rparr>"
definition StateError_s :: DeploymentState_s where
  "StateError_s = \<lparr>Name_s = ''ERROR'', Percentage_s = 100\<rparr>"

record Deployment_s =
  NodeUUID_s :: string
  UpdateOpts_s :: "UpdateOperation list"
  ConfigDrive_s :: "(error + string) option"
  Error_s :: "error option"
  Timeout_s :: int
  Delay_s :: int
  currentState_s :: DeploymentState_s
  status_s :: "chan option"

type_synonym run_s = "(Deployment_s, DeploymentState_s) outcome option"

text \<open>\<open>Deployment.done\<close>: return the stored error.\<close>

definition done_s :: "Deployment_s \<Rightarrow> DeploymentState_s event list \<Rightarrow> run_s" where
  "done_s d t = Some (Returned (Error_s d) d t)"

fun waitManage_body_s ::
  "remote \<Rightarrow> Deployment_s \<times> DeploymentState_s event list
    \<Rightarrow> (Deployment_s \<times> DeploymentState_s event list,
        (Deployment_s, DeploymentState_s) outcome) iteration" where
  "waitManage_body_s rem (d, t) =
    (case Get_result rem (gets t) of (node, err) \<Rightarrow>
      let t1 = t @ [CallGet (NodeUUID_s d)] in
      (case err of
         Some e \<Rightarrow> Break (d\<lparr>Error_s := Some e\<rparr>, t1)
       | None \<Rightarrow>
          (case node of
             None \<Rightarrow> Leave (Panicked d t1)
           | Some n \<Rightarrow>
              if ProvisionState n = Manageable then Break (d, t1)
              else if ProvisionState n = Verifying then Again (d, t1 @ [Slept])
              else Again
                (d\<lparr>Error_s := Some (''manage failed: node's current state is: ''
                    @ ProvisionState n)\<rparr>, t1))))"

text \<open>
  The loop of \<open>waitProvide\<close> in this revision is
  \<open>for node, err := nodes.Get(...).Extract(); err == nil; { ... }\<close>: the poll is the
  init statement, made once before the loop, and \<open>node\<close> and \<open>err\<close> are variables
  of the loop that nothing assigns again. The condition \<open>err == nil\<close> is tested before
  every iteration; when it fails the loop ends like a \<open>break\<close>.
\<close>

fun waitProvide_body_s ::
  "Node option \<Rightarrow> error option \<Rightarrow> Deployment_s \<times> DeploymentState_s event list
    \<Rightarrow> (Deployment_s \<times> DeploymentState_s event list,
        (Deployment_s, DeploymentState_s) outcome) iteration" where
  "waitProvide_body_s node err (d, t) =
    (if err = None then
       (case node of
          None \<Rightarrow> Leave (Panicked d t)
        | Some n \<Rightarrow>
           if ProvisionState n = Available then Break (d, t)
           else if ProvisionState n = Cleaning then Again (d, t @ [Slept])
           else Leave (Returned
             (Some (''provide failed, node's current state is: '' @ ProvisionState n)) d t))
     else Break (d, t))"

text \<open>
  The loop of \<open>waitDeploy\<close>; its state has the local variable \<open>percentage\<close> as
  well. After a failed poll the error is stored and the body goes on to read the node.
\<close>

fun waitDeploy_body_s ::
  "remote \<Rightarrow> int \<times> Deployment_s \<times> DeploymentState_s event list
    \<Rightarrow> (int \<times> Deployment_s \<times> DeploymentState_s event list,
        (Deployment_s, DeploymentState_s) outcome) iteration" where
  "waitDeploy_body_s rem (percentage, d, t) =
    (case Get_result rem (gets t) of (node, err) \<Rightarrow>
      let t1 = t @ [CallGet (NodeUUID_s d)];
          d1 = (case err of Some e \<Rightarrow> d\<lparr>Error_s := Some e\<rparr> | None \<Rightarrow> d) in
      (case node of
         None \<Rightarrow> Leave (Panicked d1 t1)
       | Some n \<Rightarrow>
          if ProvisionState n = Active then Break (percentage, d1, t1)
          else if ProvisionState n = DeployWait \<or> ProvisionState n = Deploying then
            (let percentage1 = (if percentage < 99 then percentage + 1 else percentage) in
             case send (status_s d1)
                  \<lparr>Name_s = ''WAIT_DEPLOY'', Percentage_s = percentage1\<rparr> t1 of
               None \<Rightarrow> Leave (Blocked d1 t1)
             | Some t2 \<Rightarrow> Again (percentage1, d1, t2 @ [Slept]))
          else Break (percentage,
            d1\<lparr>Error_s := Some (''deploy failed: node's current state is: ''
                @ ProvisionState n)\<rparr>, t1)))"

definition rank_s :: "DeploymentState_s \<Rightarrow> nat" where
  "rank_s s =
    (if s = StateBegin_s then 0 else if s = StateConfigure_s then 1
     else if s = StateManage_s then 2 else if s = StateWaitManage_s then 3
     else if s = StateProvide_s then 4 else if s = StateWaitProvide_s then 5
     else if s = StateDeploy_s then 6 else if s = StateWaitDeploy_s then 7 else 8)"

definition switch_s :: "Deployment_s \<Rightarrow> (func \<times> Deployment_s) option" where
  "switch_s d =
    (let state = currentState_s d in
     if state = StateBegin_s then Some (Fconfigure, d\<lparr>currentState_s := StateConfigure_s\<rparr>)
     else if state = StateConfigure_s then Some (Fmanage, d\<lparr>currentState_s := StateManage_s\<rparr>)
     else if state = StateManage_s then
       Some (FwaitManage, d\<lparr>currentState_s := StateWaitManage_s\<rparr>)
     else if state = StateWaitManage_s then
       Some (Fprovide, d\<lparr>currentState_s := StateProvide_s\<rparr>)
     else if state = StateProvide_s then
       Some (FwaitProvide, d\<lparr>currentState_s := StateWaitProvide_s\<rparr>)
     else if state = StateWaitProvide_s then
       Some (Fdeploy, d\<lparr>currentState_s := StateDeploy_s\<rparr>)
     else if state = StateDeploy_s then
       Some (FwaitDeploy, d\<lparr>currentState_s := StateWaitDeploy_s\<rparr>)
     else if state = StateWaitDeploy_s then
       Some (Fdone, d\<lparr>currentState_s := StateDone_s\<rparr>)
     else None)"

function nextState_s :: "remote \<Rightarrow> Deployment_s \<Rightarrow> DeploymentState_s event list \<Rightarrow> run_s"
  and configure_s :: "remote \<Rightarrow> Deployment_s \<Rightarrow> DeploymentState_s event list \<Rightarrow> run_s"
  and manage_s :: "remote \<Rightarrow> Deployment_s \<Rightarrow> DeploymentState_s event list \<Rightarrow> run_s"
  and waitManage_s :: "remote \<Rightarrow> Deployment_s \<Rightarrow> DeploymentState_s event list \<Rightarrow> run_s"
  and provide_s :: "remote \<Rightarrow> Deployment_s \<Rightarrow> DeploymentState_s event list \<Rightarrow> run_s"
  and waitProvide_s :: "remote \<Rightarrow> Deployment_s \<Rightarrow> DeploymentState_s event list \<Rightarrow> run_s"
  and deploy_s :: "remote \<Rightarrow> Deployment_s \<Rightarrow> DeploymentState_s event list \<Rightarrow> run_s"
  and waitDeploy_s :: "remote \<Rightarrow> Deployment_s \<Rightarrow> DeploymentState_s event list \<Rightarrow> run_s"
where
  "nextState_s rem d t =
    (if Error_s d \<noteq> None then
       (if status_s d \<noteq> None then
          (case send (status_s d) StateError_s t of
             None \<Rightarrow> Some (Blocked d t)
           | Some t' \<Rightarrow> done_s d t')
        else done_s d t)
     else
      (case switch_s d of
         None \<Rightarrow> Some (Returned (Some ''unknown state'') d t)
       | Some (f, d') \<Rightarrow>
          (case (if status_s d' \<noteq> None then send (status_s d') (currentState_s d') t
                 else Some t) of
             None \<Rightarrow> Some (Blocked d' t)
           | Some t' \<Rightarrow>
              (case f of
                 Fconfigure \<Rightarrow> configure_s rem d' t'
               | Fmanage \<Rightarrow> manage_s rem d' t'
               | FwaitManage \<Rightarrow> waitManage_s rem d' t'
               | Fprovide \<Rightarrow> provide_s rem d' t'
               | FwaitProvide \<Rightarrow> waitProvide_s rem d' t'
               | Fdeploy \<Rightarrow> deploy_s rem d' t'
               | FwaitDeploy \<Rightarrow> waitDeploy_s rem d' t'
               | Fdone \<Rightarrow> done_s d' t'))))"
| "configure_s rem d t =
    (if length (UpdateOpts_s d) \<noteq> 0 then
       (let t1 = t @ [CallUpdate (NodeUUID_s d) (UpdateOpts_s d)] in
        case Update_result rem of
          Some e \<Rightarrow> nextState_s rem (d\<lparr>Error_s := Some e\<rparr>) t1
        | None \<Rightarrow> nextState_s rem d t1)
     else nextState_s rem d t)"
| "manage_s rem d t =
    (let t1 = t @ [CallChangeProvisionState (NodeUUID_s d) ''manage'' []] in
     case ChangeProvisionState_result rem ''manage'' of
       Some e \<Rightarrow> nextState_s rem (d\<lparr>Error_s := Some e\<rparr>) t1
     | None \<Rightarrow> nextState_s rem d t1)"
| "waitManage_s rem d t =
    (case for_loop (waitManage_body_s rem) (d, t) of
       None \<Rightarrow> None
     | Some (Inr out) \<Rightarrow> Some out
     | Some (Inl (d', t')) \<Rightarrow> nextState_s rem d' t')"
| "provide_s rem d t =
    (let t1 = t @ [CallChangeProvisionState (NodeUUID_s d) ''provide'' []] in
     nextState_s rem (d\<lparr>Error_s := ChangeProvisionState_result rem ''provide''\<rparr>) t1)"
| "waitProvide_s rem d t =
    (let err = (None :: error option) in
     case Get_result rem (gets t) of (node, err1) \<Rightarrow>
       (case for_loop (waitProvide_body_s node err1) (d, t @ [CallGet (NodeUUID_s d)]) of
          None \<Rightarrow> None
        | Some (Inr out) \<Rightarrow> Some out
        | Some (Inl (d', t')) \<Rightarrow> nextState_s rem (d'\<lparr>Error_s := err\<rparr>) t'))"
| "deploy_s rem d t =
    (case ConfigDrive_s d of
       None \<Rightarrow> Some (Panicked d t)
     | Some (Inl err) \<Rightarrow> nextState_s rem (d\<lparr>Error_s := Some err\<rparr>) t
     | Some (Inr configDrive) \<Rightarrow>
        (let t1 = t @ [CallChangeProvisionState (NodeUUID_s d) ''active'' configDrive] in
         nextState_s rem (d\<lparr>Error_s := ChangeProvisionState_result rem ''active''\<rparr>) t1))"
| "waitDeploy_s rem d t =
    (case for_loop (waitDeploy_body_s rem) (50, d, t) of
       None \<Rightarrow> None
     | Some (Inr out) \<Rightarrow> Some out
     | Some (Inl (percentage, d', t')) \<Rightarrow> nextState_s rem d' t')"
  by pat_completeness auto

text \<open>
  \<open>Deploy\<close> of this revision: the channel is stored, sent to and closed at the end only
  when the caller passed one.
\<close>

definition Deploy_s :: "remote \<Rightarrow> Deployment_s \<Rightarrow> chan option \<Rightarrow> run_s" where
  "Deploy_s rem deployment status' =
    (let d = deployment\<lparr>currentState_s := StateBegin_s\<rparr> in
     if status' \<noteq> None then
       (let d1 = d\<lparr>status_s := status'\<rparr> in
        case send (status_s d1) StateBegin_s [] of
          None \<Rightarrow> Some (Blocked d1 [])
        | Some t \<Rightarrow> close_deferred (nextState_s rem d1 t))
     else nextState_s rem d [])"

section \<open>Runs to evaluate\<close>

text \<open>The values sent on the channel during a run, in order.\<close>

fun sends :: "'v event list \<Rightarrow> 'v list" where
  "sends [] = []"
| "sends (Sent v # t) = v # sends t"
| "sends (_ # t) = sends t"

text \<open>The events of the channel in a trace: the values sent and the close.\<close>

fun chan_events :: "'v event list \<Rightarrow> 'v event list" where
  "chan_events [] = []"
| "chan_events (Sent v # t) = Sent v # chan_events t"
| "chan_events (Closed # t) = Closed # chan_events t"
| "chan_events (_ # t) = chan_events t"

text \<open>The trace of an outcome, and the requests for a target state among the events.\<close>

fun trace_of :: "('d, 'v) outcome \<Rightarrow> 'v event list" where
  "trace_of (Returned e d t) = t"
| "trace_of (Blocked d t) = t"
| "trace_of (Panicked d t) = t"

fun is_request :: "string \<Rightarrow> 'v event \<Rightarrow> bool" where
  "is_request target (CallChangeProvisionState uuid tg cd) = (tg = target)"
| "is_request target _ = False"

text \<open>The patch calls among the events, and a run that has none to make and made none.\<close>

fun is_CallUpdate :: "'v event \<Rightarrow> bool" where
  "is_CallUpdate (CallUpdate uuid ops) = True"
| "is_CallUpdate _ = False"

definition unpatched :: "Deployment \<Rightarrow> int event list \<Rightarrow> bool" where
  "unpatched d t = (UpdateOpts d = [] \<and> \<not> list_ex is_CallUpdate t)"

text \<open>
  The two ways in which the machine of the integer-channel revision hands back an
  error value: the stored error, after the value 100 was sent; or an error that is not
  stored, from the state WAIT_PROVIDE. A panic is left to the caller; a blocked send
  is neither.
\<close>

definition settled :: "(Deployment, int) outcome \<Rightarrow> bool" where
  "settled out =
    (case out of
       Returned e dz tz \<Rightarrow>
         Error dz = e \<and> tz \<noteq> [] \<and> last tz = Sent 100
         \<or> e \<noteq> None \<and> Error dz = None \<and> currentState dz = StateWaitProvide
     | Blocked dz tz \<Rightarrow> False
     | Panicked dz tz \<Rightarrow> True)"

text \<open>
  The same for the state-struct revision, where the last value is the state DONE
  after a run without an error and the state ERROR otherwise.
\<close>

definition settled_s :: "(Deployment_s, DeploymentState_s) outcome \<Rightarrow> bool" where
  "settled_s out =
    (case out of
       Returned e dz tz \<Rightarrow>
         Error_s dz = e \<and> tz \<noteq> []
           \<and> last tz = Sent (if e = None then StateDone_s else StateError_s)
         \<or> e \<noteq> None \<and> Error_s dz = None \<and> currentState_s dz = StateWaitProvide_s
     | Blocked dz tz \<Rightarrow> False
     | Panicked dz tz \<Rightarrow> True)"

text \<open>
  A poll that finds the node in a provision state, and a poll that fails: with the
  error, \<open>Extract\<close> hands back a node whose fields are empty.
\<close>

definition node_in :: "string \<Rightarrow> Node option \<times> error option" where
  "node_in s = (Some \<lparr>Name = ''node-0'', ProvisionState = s\<rparr>, None)"

definition poll_fails :: "error \<Rightarrow> Node option \<times> error option" where
  "poll_fails e = (Some \<lparr>Name = [], ProvisionState = []\<rparr>, Some e)"

text \<open>The polls answer from a list, one entry each, and with \<open>rest\<close> ever after.\<close>

definition answers :: "'a list \<Rightarrow> 'a \<Rightarrow> nat \<Rightarrow> 'a" where
  "answers xs rest k = (if k < length xs then xs ! k else rest)"

text \<open>A service that accepts every patch and every state change.\<close>

definition service :: "(nat \<Rightarrow> Node option \<times> error option) \<Rightarrow> remote" where
  "service g =
    \<lparr>Update_result = None, ChangeProvisionState_result = (\<lambda>_. None), Get_result = g\<rparr>"

text \<open>A deployment as a caller builds it: the exported fields set, the others zero.\<close>

definition fresh :: Deployment where
  "fresh =
    \<lparr>NodeUUID = ''1be26c0b'',
     UpdateOpts = [\<lparr>Op = ''add'', Path = ''/instance_info'', Value = [(''root_gb'', ''25'')]\<rparr>],
     ConfigDrive = Some (Inr ''H4sIAAAA''), Error = None, Timeout = 0, Delay = 0,
     currentState = StateBegin, currentPercent = 0, status = None\<rparr>"

definition fresh_s :: Deployment_s where
  "fresh_s =
    \<lparr>NodeUUID_s = ''1be26c0b'',
     UpdateOpts_s = [\<lparr>Op = ''add'', Path = ''/instance_info'', Value = [(''root_gb'', ''25'')]\<rparr>],
     ConfigDrive_s = Some (Inr ''H4sIAAAA''), Error_s = None, Timeout_s = 0, Delay_s = 0,
     currentState_s = StateBegin_s, status_s = None\<rparr>"

text \<open>A library with stand-ins for the codecs, and a host on which nothing fails.\<close>

definition lib0 :: "string library" where
  "lib0 =
    \<lparr>MarshalIndent = (\<lambda>j prefix indent. Inr j), Marshal = Inr,
     EncodeToString = (\<lambda>b. ''base64('' @ b @ '')''),
     iso9660 = (\<lambda>tr. case tr ''openstack/latest/user_data'' of
        None \<Rightarrow> ''iso()'' | Some data \<Rightarrow> ''iso(user_data='' @ data @ '')''),
     gzip = (\<lambda>b. ''gzip('' @ b @ '')'')\<rparr>"

definition host0 :: host where
  "host0 =
    \<lparr>TempDir_result = Inr ''/tmp/gophercloud042'', MkdirAll_result = (\<lambda>_. None),
     WriteFile_result = (\<lambda>_. None), Pack_result = (\<lambda>_. None)\<rparr>"

text \<open>
  Decoders for the stand-ins of that library: they strip what the stand-in put around
  its argument, and the mounted image has the one file the stand-in image keeps.
\<close>

definition decode0 :: "string \<Rightarrow> string" where
  "decode0 s = butlast (drop 7 s)"

definition gunzip0 :: "string \<Rightarrow> string" where
  "gunzip0 s = butlast (drop 5 s)"

definition mount0 :: "string \<Rightarrow> string \<Rightarrow> string option" where
  "mount0 packed rel =
    (if rel = ''openstack/latest/user_data'' \<and> take 14 packed = ''iso(user_data=''
     then Some (butlast (drop 14 packed)) else None)"

section \<open>Termination of the state machines\<close>

text \<open>
  What holds before a loop and is kept by every iteration holds where the loop is left.
\<close>

lemma for_loop_invariant:
  assumes run: "for_loop body s = Some r" and init: "I s"
    and keep: "\<And>s s'. I s \<Longrightarrow> body s = Again s' \<Longrightarrow> I s'"
  shows "\<exists>s0. I s0 \<and> (case r of Inl s' \<Rightarrow> body s0 = Break s' | Inr out \<Rightarrow> body s0 = Leave out)"
proof -
  define Q where
    "Q r \<longleftrightarrow> (\<exists>s0. I s0 \<and> (case r of Inl s' \<Rightarrow> body s0 = Break s' | Inr out \<Rightarrow> body s0 = Leave out))"
    for r
  have "body = body \<longrightarrow> I s \<longrightarrow> Q r"
  proof (rule for_loop.raw_induct [where P = "\<lambda>b s r. b = body \<longrightarrow> I s \<longrightarrow> Q r", OF _ run])
    fix loop :: "('a \<Rightarrow> ('a, 'b) iteration) \<Rightarrow> 'a \<Rightarrow> ('a + 'b) option"
      and b :: "'a \<Rightarrow> ('a, 'b) iteration" and s r
    assume IH: "\<And>b s r. loop b s = Some r \<Longrightarrow> b = body \<longrightarrow> I s \<longrightarrow> Q r"
      and step: "(case b s of Again s' \<Rightarrow> loop b s' | Break s' \<Rightarrow> Some (Inl s')
        | Leave out \<Rightarrow> Some (Inr out)) = Some r"
    show "b = body \<longrightarrow> I s \<longrightarrow> Q r"
    proof (intro impI)
      assume b: "b = body" and i: "I s"
      show "Q r"
      proof (cases "body s")
        case (Again s')
        with step b have "loop body s' = Some r" by simp
        from IH [OF this] have "I s' \<longrightarrow> Q r" by simp
        moreover from keep [OF i Again] have "I s'" .
        ultimately show ?thesis by simp
      next
        case (Break s')
        with step b have "r = Inl s'" by simp
        with Break i show ?thesis unfolding Q_def by (intro exI [of _ s]) simp
      next
        case (Leave out)
        with step b have "r = Inr out" by simp
        with Leave i show ?thesis unfolding Q_def by (intro exI [of _ s]) simp
      qed
    qed
  qed
  with init have "Q r" by simp
  then show ?thesis unfolding Q_def .
qed

text \<open>A loop whose every iteration asks for the next one never ends.\<close>

lemma for_loop_diverges:
  assumes init: "I s" and again: "\<And>s. I s \<Longrightarrow> \<exists>s'. body s = Again s' \<and> I s'"
  shows "for_loop body s = None"
proof (cases "for_loop body s")
  case None
  then show ?thesis .
next
  case (Some r)
  have keep: "I s'" if "I s" and "body s = Again s'" for s s'
    using again [OF that(1)] that(2) by auto
  have "\<exists>s0. I s0 \<and> (case r of Inl s' \<Rightarrow> body s0 = Break s' | Inr out \<Rightarrow> body s0 = Leave out)"
    by (rule for_loop_invariant [where I = I, OF Some init]) (rule keep)
  then obtain s0 where s0: "I s0"
    and r: "case r of Inl s' \<Rightarrow> body s0 = Break s' | Inr out \<Rightarrow> body s0 = Leave out"
    by auto
  from again [OF s0] obtain s' where "body s0 = Again s'" by auto
  with r show ?thesis by (cases r) simp_all
qed

text \<open>The same, for a loop left by \<open>break\<close> and for a loop left otherwise.\<close>

lemma for_loop_break:
  assumes "for_loop body s = Some (Inl s')" and "I s"
    and "\<And>s s'. I s \<Longrightarrow> body s = Again s' \<Longrightarrow> I s'"
    and "\<And>s. I s \<Longrightarrow> body s = Break s' \<Longrightarrow> J"
  shows J
proof -
  have "\<exists>s0. I s0 \<and> (case Inl s' of Inl s' \<Rightarrow> body s0 = Break s' | Inr out \<Rightarrow> body s0 = Leave out)"
    by (rule for_loop_invariant [where I = I, OF assms(1,2)]) (rule assms(3))
  then show ?thesis using assms(4) by auto
qed

lemma for_loop_leave:
  assumes "for_loop body s = Some (Inr out)" and "I s"
    and "\<And>s s'. I s \<Longrightarrow> body s = Again s' \<Longrightarrow> I s'"
    and "\<And>s. I s \<Longrightarrow> body s = Leave out \<Longrightarrow> J"
  shows J
proof -
  have "\<exists>s0. I s0 \<and> (case Inr out of Inl s' \<Rightarrow> body s0 = Break s' | Inr out \<Rightarrow> body s0 = Leave out)"
    by (rule for_loop_invariant [where I = I, OF assms(1,2)]) (rule assms(3))
  then show ?thesis using assms(4) by auto
qed

text \<open>A polling loop leaves the current state as it found it.\<close>

lemma waitManage_loop_currentState:
  assumes "for_loop (waitManage_body rem) (d, t) = Some (Inl (d', t'))"
  shows "currentState d' = currentState d"
  by (rule for_loop_break [OF assms, where I = "\<lambda>(d1, t1). currentState d1 = currentState d"])
    (auto simp: Let_def split: prod.splits option.splits if_splits)

lemma waitProvide_loop_currentState:
  assumes "for_loop (waitProvide_body rem) (d, t) = Some (Inl (d', t'))"
  shows "currentState d' = currentState d"
  by (rule for_loop_break [OF assms, where I = "\<lambda>(d1, t1). currentState d1 = currentState d"])
    (auto simp: Let_def split: prod.splits option.splits if_splits)

lemma waitDeploy_loop_currentState:
  assumes "for_loop (waitDeploy_body rem) (d, t) = Some (Inl (d', t'))"
  shows "currentState d' = currentState d"
  by (rule for_loop_break [OF assms, where I = "\<lambda>(d1, t1). currentState d1 = currentState d"])
    (auto simp: Let_def split: prod.splits option.splits if_splits)

lemma waitManage_loop_s_currentState:
  assumes "for_loop (waitManage_body_s rem) (d, t) = Some (Inl (d', t'))"
  shows "currentState_s d' = currentState_s d"
  by (rule for_loop_break [OF assms, where I = "\<lambda>(d1, t1). currentState_s d1 = currentState_s d"])
    (auto simp: Let_def split: prod.splits option.splits if_splits)

lemma waitProvide_loop_s_currentState:
  assumes "for_loop (waitProvide_body_s node err) (d, t) = Some (Inl (d', t'))"
  shows "currentState_s d' = currentState_s d"
  by (rule for_loop_break [OF assms, where I = "\<lambda>(d1, t1). currentState_s d1 = currentState_s d"])
    (auto simp: Let_def split: prod.splits option.splits if_splits)

lemma waitDeploy_loop_s_currentState:
  assumes "for_loop (waitDeploy_body_s rem) (p, d, t) = Some (Inl (p', d', t'))"
  shows "currentState_s d' = currentState_s d"
  by (rule for_loop_break [OF assms, where I = "\<lambda>(p1, d1, t1). currentState_s d1 = currentState_s d"])
    (auto simp: Let_def split: prod.splits option.splits if_splits)

text \<open>The switch moves the current state one step forward.\<close>

lemma rank_le: "rank s \<le> 8"
  by (cases s) (simp_all add: rank_def)

lemma switch_rank:
  assumes "switch d = Some (f, d')"
  shows "rank (currentState d') = Suc (rank (currentState d))"
  using assms by (auto simp: switch_def rank_def split: DeploymentState.splits)

lemma switch_measure:
  assumes "switch d = Some (f, d')"
  shows "Suc (2 * (9 - rank (currentState d'))) < 2 * (9 - rank (currentState d))"
  using switch_rank [OF assms] rank_le [of "currentState d'"] by simp

termination nextState
  by (relation "measure (\<lambda>x. case x of
      Inl (Inl (Inl (rem, d, t))) \<Rightarrow> 2 * (9 - rank (currentState d))
    | Inl (Inl (Inr (rem, d, t))) \<Rightarrow> 2 * (9 - rank (currentState d)) + 1
    | Inl (Inr (Inl (rem, d, t))) \<Rightarrow> 2 * (9 - rank (currentState d)) + 1
    | Inl (Inr (Inr (rem, d, t))) \<Rightarrow> 2 * (9 - rank (currentState d)) + 1
    | Inr (Inl (Inl (rem, d, t))) \<Rightarrow> 2 * (9 - rank (currentState d)) + 1
    | Inr (Inl (Inr (rem, d, t))) \<Rightarrow> 2 * (9 - rank (currentState d)) + 1
    | Inr (Inr (Inl (rem, d, t))) \<Rightarrow> 2 * (9 - rank (currentState d)) + 1
    | Inr (Inr (Inr (rem, d, t))) \<Rightarrow> 2 * (9 - rank (currentState d)) + 1)")
    (auto dest: waitManage_loop_currentState waitProvide_loop_currentState
      waitDeploy_loop_currentState simp: switch_measure)

lemmas State_s_defs =
  StateBegin_s_def StateConfigure_s_def StateManage_s_def StateWaitManage_s_def
  StateProvide_s_def StateWaitProvide_s_def StateDeploy_s_def StateWaitDeploy_s_def
  StateDone_s_def StateError_s_def

lemma rank_s_le: "rank_s s \<le> 8"
  by (simp add: rank_s_def)

lemma switch_s_rank:
  assumes "switch_s d = Some (f, d')"
  shows "rank_s (currentState_s d') = Suc (rank_s (currentState_s d))"
  using assms unfolding switch_s_def Let_def
  by (auto simp add: rank_s_def State_s_defs split: if_splits)

lemma switch_s_measure:
  assumes "switch_s d = Some (f, d')"
  shows "Suc (2 * (9 - rank_s (currentState_s d'))) < 2 * (9 - rank_s (currentState_s d))"
  using switch_s_rank [OF assms] rank_s_le [of "currentState_s d'"] by simp

termination nextState_s
  by (relation "measure (\<lambda>x. case x of
      Inl (Inl (Inl (rem, d, t))) \<Rightarrow> 2 * (9 - rank_s (currentState_s d))
    | Inl (Inl (Inr (rem, d, t))) \<Rightarrow> 2 * (9 - rank_s (currentState_s d)) + 1
    | Inl (Inr (Inl (rem, d, t))) \<Rightarrow> 2 * (9 - rank_s (currentState_s d)) + 1
    | Inl (Inr (Inr (rem, d, t))) \<Rightarrow> 2 * (9 - rank_s (currentState_s d)) + 1
    | Inr (Inl (Inl (rem, d, t))) \<Rightarrow> 2 * (9 - rank_s (currentState_s d)) + 1
    | Inr (Inl (Inr (rem, d, t))) \<Rightarrow> 2 * (9 - rank_s (currentState_s d)) + 1
    | Inr (Inr (Inl (rem, d, t))) \<Rightarrow> 2 * (9 - rank_s (currentState_s d)) + 1
    | Inr (Inr (Inr (rem, d, t))) \<Rightarrow> 2 * (9 - rank_s (currentState_s d)) + 1)")
    (auto dest: waitManage_loop_s_currentState waitProvide_loop_s_currentState
      waitDeploy_loop_s_currentState simp: switch_s_measure)

section \<open>Evaluating a run\<close>

lemmas state_names =
  Manageable_def Verifying_def Available_def Cleaning_def Active_def DeployWait_def Deploying_def

lemmas percents =
  StateBeginPercent_def StateConfigurePercent_def StateManagePercent_def
  StateWaitManagePercent_def StateProvidePercent_def StateWaitProvidePercent_def
  StateDeployPercent_def StateWaitDeployPercent_def StateDonePercent_def

lemmas examples = node_in_def poll_fails_def answers_def service_def fresh_def fresh_s_def

text \<open>
  The equations of the state machines unfold one call each, when asked to; a run on
  given answers is computed by unfolding them all.
\<close>

lemmas machine = nextState.simps configure.simps manage.simps waitManage.simps provide.simps
  waitProvide.simps deploy.simps waitDeploy.simps

lemmas machine_s = nextState_s.simps configure_s.simps manage_s.simps waitManage_s.simps
  provide_s.simps waitProvide_s.simps deploy_s.simps waitDeploy_s.simps

declare machine [simp del]
declare machine_s [simp del]

lemmas run_defs = Deploy_def Deploy_s_def close_deferred_def done'_def done_s_def switch_def
  switch_s_def send_def gets_def for_loop.simps Let_def machine machine_s

section \<open>Properties\<close>

subsection \<open>Helper facts\<close>

lemma sends_append: "sends (a @ b) = sends a @ sends b"
  by (induction a rule: sends.induct) simp_all

lemma strict_snoc:
  fixes v :: int
  assumes "sorted_wrt (<) xs" and "xs \<noteq> []" and "last xs < v"
  shows "sorted_wrt (<) (xs @ [v])"
  using assms
proof (induction xs)
  case Nil
  then show ?case by simp
next
  case (Cons a xs)
  show ?case
  proof (cases "xs = []")
    case True
    with Cons.prems show ?thesis by simp
  next
    case False
    with Cons have s: "sorted_wrt (<) (xs @ [v])" by simp
    from False have "last xs \<in> set xs" by simp
    with Cons.prems have "a < last xs" by simp
    moreover from False Cons.prems have "last xs < v" by simp
    ultimately have "a < v" by (rule less_trans)
    with s Cons.prems show ?thesis by (simp add: sorted_wrt_append)
  qed
qed


lemma chan_events_append: "chan_events (a @ b) = chan_events a @ chan_events b"
  by (induction a rule: chan_events.induct) simp_all

lemma sends_chan_events: "sends (chan_events t) = sends t"
  by (induction t rule: chan_events.induct) simp_all

text \<open>
  Once an error is stored, \<open>nextState\<close> sends the final value and returns the error.
\<close>

lemma nextState_error:
  assumes "Error d = Some e" and "status d = Some Drained"
  shows "nextState rem d t = Some (Returned (Some e) d (t @ [Sent 100]))"
  using assms by (simp add: nextState.simps done'_def send_def StateDonePercent_def)

lemma nextState_s_error:
  assumes "Error_s d = Some e" and "status_s d = Some Drained"
  shows "nextState_s rem d t = Some (Returned (Some e) d (t @ [Sent StateError_s]))"
  using assms by (simp add: nextState_s.simps done_s_def send_def)

subsection \<open>The progress values of a successful run\<close>

text \<open>
  The loops of \<open>waitManage\<close> and \<open>waitProvide\<close> send nothing and leave the channel, the
  percentage and the state as they are; no loop is left by a return without an error.
\<close>

lemma waitManage_loop_quiet:
  assumes "for_loop (waitManage_body rem) (d, t) = Some (Inl (d', t'))"
  shows "chan_events t' = chan_events t \<and> status d' = status d
    \<and> currentPercent d' = currentPercent d \<and> currentState d' = currentState d"
  by (rule for_loop_break [OF assms, where I = "\<lambda>(d1, t1). chan_events t1 = chan_events t
      \<and> status d1 = status d \<and> currentPercent d1 = currentPercent d
      \<and> currentState d1 = currentState d"])
    (auto simp: Let_def chan_events_append split: prod.splits option.splits if_splits)

lemma waitProvide_loop_quiet:
  assumes "for_loop (waitProvide_body rem) (d, t) = Some (Inl (d', t'))"
  shows "chan_events t' = chan_events t \<and> status d' = status d
    \<and> currentPercent d' = currentPercent d \<and> currentState d' = currentState d"
  by (rule for_loop_break [OF assms, where I = "\<lambda>(d1, t1). chan_events t1 = chan_events t
      \<and> status d1 = status d \<and> currentPercent d1 = currentPercent d
      \<and> currentState d1 = currentState d"])
    (auto simp: Let_def chan_events_append split: prod.splits option.splits if_splits)

lemma waitManage_loop_leave:
  assumes "for_loop (waitManage_body rem) (d, t) = Some (Inr out)"
  shows "\<forall>d' t'. out \<noteq> Returned None d' t'"
  by (rule for_loop_leave [OF assms, where I = "\<lambda>_. True"])
    (auto simp: Let_def split: prod.splits option.splits if_splits)

lemma waitProvide_loop_leave:
  assumes "for_loop (waitProvide_body rem) (d, t) = Some (Inr out)"
  shows "\<forall>d' t'. out \<noteq> Returned None d' t'"
  by (rule for_loop_leave [OF assms, where I = "\<lambda>_. True"])
    (auto simp: Let_def split: prod.splits option.splits if_splits)

lemma waitDeploy_loop_leave:
  assumes "for_loop (waitDeploy_body rem) (d, t) = Some (Inr out)"
  shows "\<forall>d' t'. out \<noteq> Returned None d' t'"
  by (rule for_loop_leave [OF assms, where I = "\<lambda>_. True"])
    (auto simp: Let_def split: prod.splits option.splits if_splits)

text \<open>One iteration of the loop of waitDeploy, on a channel that is read.\<close>

lemma waitDeploy_body_step:
  assumes "waitDeploy_body rem (d, t) = Again (d', t')" and "status d = Some Drained"
  shows "status d' = status d \<and> currentState d' = currentState d
    \<and> (chan_events t' = chan_events t \<and> currentPercent d' = currentPercent d
      \<or> chan_events t' = chan_events t @ [Sent (currentPercent d')]
        \<and> currentPercent d < currentPercent d' \<and> currentPercent d' < 100)"
  using assms
  by (auto simp: Let_def send_def chan_events_append StateWaitDeployPercent_def
      split: prod.splits option.splits if_splits)

lemma waitDeploy_body_exit:
  assumes "waitDeploy_body rem (d, t) = Break (d', t')"
  shows "status d' = status d \<and> currentState d' = currentState d
    \<and> chan_events t' = chan_events t \<and> currentPercent d' = currentPercent d"
  using assms
  by (auto simp: Let_def send_def chan_events_append
      split: prod.splits option.splits if_splits chan.splits)
lemma waitDeploy_loop_sends:
  assumes run: "for_loop (waitDeploy_body rem) (d, t) = Some (Inl (d', t'))"
    and ch: "status d = Some Drained"
  shows "\<exists>vs. chan_events t' = chan_events t @ map Sent vs
    \<and> sorted_wrt (<) (currentPercent d # vs) \<and> (\<forall>v\<in>set vs. v < 100)
    \<and> status d' = status d \<and> currentState d' = currentState d"
proof -
  let ?I = "\<lambda>(d1, t1). \<exists>vs. chan_events t1 = chan_events t @ map Sent vs
    \<and> sorted_wrt (<) (currentPercent d # vs) \<and> (\<forall>v\<in>set vs. v < 100)
    \<and> currentPercent d1 = last (currentPercent d # vs)
    \<and> status d1 = status d \<and> currentState d1 = currentState d"
  have init: "?I (d, t)" by simp
  have keep: "?I s'" if "?I s" and "waitDeploy_body rem s = Again s'" for s s'
  proof -
    obtain d1 t1 d2 t2 where s: "s = (d1, t1)" "s' = (d2, t2)" by (cases s, cases s') auto
    from that(1) s obtain vs where vs: "chan_events t1 = chan_events t @ map Sent vs"
      "sorted_wrt (<) (currentPercent d # vs)" "\<forall>v\<in>set vs. v < 100"
      "currentPercent d1 = last (currentPercent d # vs)"
      "status d1 = status d" "currentState d1 = currentState d" by auto
    from vs(5) ch have "status d1 = Some Drained" by simp
    from waitDeploy_body_step [OF that(2) [unfolded s] this]
    have same: "status d2 = status d1" "currentState d2 = currentState d1"
      and "chan_events t2 = chan_events t1 \<and> currentPercent d2 = currentPercent d1
      \<or> chan_events t2 = chan_events t1 @ [Sent (currentPercent d2)]
        \<and> currentPercent d1 < currentPercent d2 \<and> currentPercent d2 < 100"
      by simp_all
    then consider "chan_events t2 = chan_events t1" "currentPercent d2 = currentPercent d1"
      | "chan_events t2 = chan_events t1 @ [Sent (currentPercent d2)]"
        "currentPercent d1 < currentPercent d2" "currentPercent d2 < 100" by auto
    then show ?thesis
    proof cases
      case 1
      with vs s same show ?thesis by auto
    next
      case 2
      have "sorted_wrt (<) ((currentPercent d # vs) @ [currentPercent d2])"
        by (rule strict_snoc) (use vs(2,4) 2(2) in simp_all)
      with vs 2 s same show ?thesis
        by (auto intro!: exI [of _ "vs @ [currentPercent d2]"])
    qed
  qed
  show ?thesis
  proof (rule for_loop_break [OF run, where I = ?I])
    show "?I (d, t)" by (rule init)
  next
    fix s s'
    assume "?I s" and "waitDeploy_body rem s = Again s'"
    then show "?I s'" by (rule keep)
  next
    fix s
    assume "?I s" and "waitDeploy_body rem s = Break (d', t')"
    then show ?thesis
      using waitDeploy_body_exit [of rem "fst s" "snd s" d' t'] by (cases s) auto
  qed
qed

text \<open>The rest of a successful run, from each state on.\<close>

lemma nextState_success_no_error:
  assumes "nextState rem d t = Some (Returned None dz tz)" and "status d = Some Drained"
  shows "Error d = None"
proof (cases "Error d")
  case None
  then show ?thesis .
next
  case (Some e)
  from nextState_error [OF this assms(2), of rem t] assms(1) show ?thesis by simp
qed

lemma from_WaitDeploy:
  assumes "nextState rem d t = Some (Returned None dz tz)"
    and "currentState d = StateWaitDeploy" and "status d = Some Drained"
  shows "chan_events tz = chan_events t @ [Sent 35, Sent 100]"
  using assms nextState_success_no_error [OF assms(1,3)]
  by (auto simp: nextState.simps switch_def send_def done'_def percents chan_events_append)


lemma from_Deploy:
  assumes run: "nextState rem d t = Some (Returned None dz tz)"
    and st: "currentState d = StateDeploy" and ch: "status d = Some Drained"
  shows "\<exists>vs. chan_events tz = chan_events t @ Sent 30 # map Sent vs @ [Sent 35, Sent 100]
    \<and> sorted_wrt (<) (30 # vs) \<and> (\<forall>v\<in>set vs. v < 100)"
proof -
  let ?d1 = "d\<lparr>currentPercent := StateWaitProvidePercent, currentState := StateWaitDeploy\<rparr>"
  let ?t1 = "t @ [Sent 30]"
  from nextState_success_no_error [OF run ch] st ch
  have "nextState rem d t = waitDeploy rem ?d1 ?t1"
    by (simp add: nextState.simps switch_def send_def percents)
  with run have w: "waitDeploy rem ?d1 ?t1 = Some (Returned None dz tz)" by simp
  then obtain r where r: "for_loop (waitDeploy_body rem) (?d1, ?t1) = Some r"
    by (cases "for_loop (waitDeploy_body rem) (?d1, ?t1)") (auto simp: waitDeploy.simps)
  show ?thesis
  proof (cases r)
    case (Inr out)
    with w r waitDeploy_loop_leave [of rem ?d1 ?t1 out] show ?thesis
      by (simp add: waitDeploy.simps)
  next
    case (Inl s')
    obtain d2 t2 where s': "s' = (d2, t2)" by (cases s')
    from r Inl s' have l: "for_loop (waitDeploy_body rem) (?d1, ?t1) = Some (Inl (d2, t2))"
      by simp
    from w l have n: "nextState rem d2 t2 = Some (Returned None dz tz)"
      by (simp add: waitDeploy.simps)
    from waitDeploy_loop_sends [OF l] ch
    obtain vs where vs: "chan_events t2 = chan_events ?t1 @ map Sent vs"
      "sorted_wrt (<) (30 # vs)" "\<forall>v\<in>set vs. v < 100"
      "status d2 = Some Drained" "currentState d2 = StateWaitDeploy"
      by (auto simp: percents)
    from from_WaitDeploy [OF n vs(5,4)] vs(1-3) show ?thesis
      by (auto simp: chan_events_append)
  qed
qed

lemma from_WaitProvide:
  assumes run: "nextState rem d t = Some (Returned None dz tz)"
    and st: "currentState d = StateWaitProvide" and ch: "status d = Some Drained"
  shows "\<exists>vs. chan_events tz
      = chan_events t @ Sent 25 # Sent 30 # map Sent vs @ [Sent 35, Sent 100]
    \<and> sorted_wrt (<) (30 # vs) \<and> (\<forall>v\<in>set vs. v < 100)"
proof -
  let ?d1 = "d\<lparr>currentPercent := StateProvidePercent, currentState := StateDeploy\<rparr>"
  let ?t1 = "t @ [Sent 25]"
  from nextState_success_no_error [OF run ch] st ch
  have "nextState rem d t = deploy rem ?d1 ?t1"
    by (simp add: nextState.simps switch_def send_def percents)
  with run have w: "deploy rem ?d1 ?t1 = Some (Returned None dz tz)" by simp
  then obtain d2 t2 where n: "nextState rem d2 t2 = Some (Returned None dz tz)"
    and d2: "currentState d2 = StateDeploy" "status d2 = Some Drained"
    and t2: "chan_events t2 = chan_events ?t1"
    using st ch
    by (auto simp: deploy.simps Let_def chan_events_append split: option.splits sum.splits)
  from from_Deploy [OF n d2] t2 show ?thesis
    by (auto simp: chan_events_append)
qed

lemma from_Provide:
  assumes run: "nextState rem d t = Some (Returned None dz tz)"
    and st: "currentState d = StateProvide" and ch: "status d = Some Drained"
  shows "\<exists>vs. chan_events tz
      = chan_events t @ Sent 20 # Sent 25 # Sent 30 # map Sent vs @ [Sent 35, Sent 100]
    \<and> sorted_wrt (<) (30 # vs) \<and> (\<forall>v\<in>set vs. v < 100)"
proof -
  let ?d1 = "d\<lparr>currentPercent := StateWaitManagePercent, currentState := StateWaitProvide\<rparr>"
  let ?t1 = "t @ [Sent 20]"
  from nextState_success_no_error [OF run ch] st ch
  have "nextState rem d t = waitProvide rem ?d1 ?t1"
    by (simp add: nextState.simps switch_def send_def percents)
  with run have w: "waitProvide rem ?d1 ?t1 = Some (Returned None dz tz)" by simp
  then obtain r where r: "for_loop (waitProvide_body rem) (?d1, ?t1) = Some r"
    by (cases "for_loop (waitProvide_body rem) (?d1, ?t1)") (auto simp: waitProvide.simps)
  show ?thesis
  proof (cases r)
    case (Inr out)
    with w r waitProvide_loop_leave [of rem ?d1 ?t1 out] show ?thesis
      by (simp add: waitProvide.simps)
  next
    case (Inl s')
    obtain d2 t2 where s': "s' = (d2, t2)" by (cases s')
    from r Inl s' have l: "for_loop (waitProvide_body rem) (?d1, ?t1) = Some (Inl (d2, t2))"
      by simp
    from w l have n: "nextState rem d2 t2 = Some (Returned None dz tz)"
      by (simp add: waitProvide.simps)
    from waitProvide_loop_quiet [OF l] ch
    have q: "chan_events t2 = chan_events ?t1" "status d2 = Some Drained"
      "currentState d2 = StateWaitProvide"
      by simp_all
    from from_WaitProvide [OF n q(3,2)] q(1) show ?thesis
      by (auto simp: chan_events_append)
  qed
qed

lemma from_WaitManage:
  assumes run: "nextState rem d t = Some (Returned None dz tz)"
    and st: "currentState d = StateWaitManage" and ch: "status d = Some Drained"
  shows "\<exists>vs. chan_events tz
      = chan_events t @ Sent 15 # Sent 20 # Sent 25 # Sent 30 # map Sent vs @ [Sent 35, Sent 100]
    \<and> sorted_wrt (<) (30 # vs) \<and> (\<forall>v\<in>set vs. v < 100)"
proof -
  let ?d1 = "d\<lparr>currentPercent := StateManagePercent, currentState := StateProvide\<rparr>"
  let ?t1 = "t @ [Sent 15]"
  from nextState_success_no_error [OF run ch] st ch
  have "nextState rem d t = provide rem ?d1 ?t1"
    by (simp add: nextState.simps switch_def send_def percents)
  with run have "provide rem ?d1 ?t1 = Some (Returned None dz tz)" by simp
  then obtain d2 t2 where n: "nextState rem d2 t2 = Some (Returned None dz tz)"
    and d2: "currentState d2 = StateProvide" "status d2 = Some Drained"
    and t2: "chan_events t2 = chan_events ?t1"
    using st ch by (auto simp: provide.simps Let_def chan_events_append)
  from from_Provide [OF n d2] t2 show ?thesis
    by (auto simp: chan_events_append)
qed

lemma from_Manage:
  assumes run: "nextState rem d t = Some (Returned None dz tz)"
    and st: "currentState d = StateManage" and ch: "status d = Some Drained"
  shows "\<exists>vs. chan_events tz
      = chan_events t @ Sent 10 # Sent 15 # Sent 20 # Sent 25 # Sent 30 # map Sent vs
          @ [Sent 35, Sent 100]
    \<and> sorted_wrt (<) (30 # vs) \<and> (\<forall>v\<in>set vs. v < 100)"
proof -
  let ?d1 = "d\<lparr>currentPercent := StateConfigurePercent, currentState := StateWaitManage\<rparr>"
  let ?t1 = "t @ [Sent 10]"
  from nextState_success_no_error [OF run ch] st ch
  have "nextState rem d t = waitManage rem ?d1 ?t1"
    by (simp add: nextState.simps switch_def send_def percents)
  with run have w: "waitManage rem ?d1 ?t1 = Some (Returned None dz tz)" by simp
  then obtain r where r: "for_loop (waitManage_body rem) (?d1, ?t1) = Some r"
    by (cases "for_loop (waitManage_body rem) (?d1, ?t1)") (auto simp: waitManage.simps)
  show ?thesis
  proof (cases r)
    case (Inr out)
    with w r waitManage_loop_leave [of rem ?d1 ?t1 out] show ?thesis
      by (simp add: waitManage.simps)
  next
    case (Inl s')
    obtain d2 t2 where s': "s' = (d2, t2)" by (cases s')
    from r Inl s' have l: "for_loop (waitManage_body rem) (?d1, ?t1) = Some (Inl (d2, t2))"
      by simp
    from w l have n: "nextState rem d2 t2 = Some (Returned None dz tz)"
      by (simp add: waitManage.simps)
    from waitManage_loop_quiet [OF l] ch
    have q: "chan_events t2 = chan_events ?t1" "status d2 = Some Drained"
      "currentState d2 = StateWaitManage"
      by simp_all
    from from_WaitManage [OF n q(3,2)] q(1) show ?thesis
      by (auto simp: chan_events_append)
  qed
qed

lemma from_Configure:
  assumes run: "nextState rem d t = Some (Returned None dz tz)"
    and st: "currentState d = StateConfigure" and ch: "status d = Some Drained"
  shows "\<exists>vs. chan_events tz
      = chan_events t @ Sent (currentPercent d) # Sent 10 # Sent 15 # Sent 20 # Sent 25 # Sent 30
          # map Sent vs @ [Sent 35, Sent 100]
    \<and> sorted_wrt (<) (30 # vs) \<and> (\<forall>v\<in>set vs. v < 100)"
proof -
  let ?d1 = "d\<lparr>currentState := StateManage\<rparr>"
  let ?t1 = "t @ [Sent (currentPercent d)]"
  from nextState_success_no_error [OF run ch] st ch
  have "nextState rem d t = manage rem ?d1 ?t1"
    by (simp add: nextState.simps switch_def send_def percents)
  with run have "manage rem ?d1 ?t1 = Some (Returned None dz tz)" by simp
  then obtain d2 t2 where n: "nextState rem d2 t2 = Some (Returned None dz tz)"
    and d2: "currentState d2 = StateManage" "status d2 = Some Drained"
    and t2: "chan_events t2 = chan_events ?t1"
    using st ch by (auto simp: manage.simps Let_def chan_events_append split: option.splits)
  from from_Manage [OF n d2] t2 show ?thesis
    by (auto simp: chan_events_append)
qed

lemma from_Begin:
  assumes run: "nextState rem d t = Some (Returned None dz tz)"
    and st: "currentState d = StateBegin" and ch: "status d = Some Drained"
  shows "\<exists>vs. chan_events tz
      = chan_events t @ Sent (currentPercent d) # Sent (currentPercent d) # Sent 10 # Sent 15
          # Sent 20 # Sent 25 # Sent 30 # map Sent vs @ [Sent 35, Sent 100]
    \<and> sorted_wrt (<) (30 # vs) \<and> (\<forall>v\<in>set vs. v < 100)"
proof -
  let ?d1 = "d\<lparr>currentState := StateConfigure\<rparr>"
  let ?t1 = "t @ [Sent (currentPercent d)]"
  from nextState_success_no_error [OF run ch] st ch
  have "nextState rem d t = configure rem ?d1 ?t1"
    by (simp add: nextState.simps switch_def send_def percents)
  with run have "configure rem ?d1 ?t1 = Some (Returned None dz tz)" by simp
  then obtain d2 t2 where n: "nextState rem d2 t2 = Some (Returned None dz tz)"
    and d2: "currentState d2 = StateConfigure" "status d2 = Some Drained"
      "currentPercent d2 = currentPercent d"
    and t2: "chan_events t2 = chan_events ?t1"
    using st ch
    by (auto simp: configure.simps Let_def chan_events_append split: option.splits if_splits)
  from from_Configure [OF n d2(1,2)] t2 d2(3) show ?thesis
    by (auto simp: chan_events_append)
qed

text \<open>
  Every successful run of the integer-channel revision on a channel that is read: the
  channel sees 0, twice the percentage the deployment came with, 10, 15, 20, 25, 30, a
  strictly increasing ramp above 30 and below 100, then 35 and 100, and then its close,
  once.
\<close>

lemma Deploy_success_channel:
  assumes "Deploy rem d (Some Drained) = Some (Returned None dz tz)"
  shows "\<exists>vs. chan_events tz
      = map Sent ([0, currentPercent d, currentPercent d, 10, 15, 20, 25, 30] @ vs @ [35, 100])
          @ [Closed]
    \<and> sorted_wrt (<) (30 # vs) \<and> (\<forall>v\<in>set vs. v < 100)"
proof -
  let ?d1 = "d\<lparr>currentState := StateBegin, status := Some Drained\<rparr>"
  from assms obtain t1 where n: "nextState rem ?d1 [Sent 0] = Some (Returned None dz t1)"
    and tz: "tz = t1 @ [Closed]"
    by (auto simp: Deploy_def Let_def send_def close_deferred_def percents
        split: option.splits outcome.splits)
  from from_Begin [OF n] tz show ?thesis
    by (auto simp: chan_events_append)
qed

text \<open>
  So the values of a successful run that started at percentage 0 are non-decreasing
  only when the ramp did not pass 35.
\<close>

lemma Deploy_success_sorted:
  assumes "Deploy rem d (Some Drained) = Some (Returned None dz tz)"
    and "currentPercent d = 0"
  shows "sorted (sends tz) \<longleftrightarrow> (\<forall>v\<in>set (sends tz). v \<le> 35 \<or> v = 100)"
proof -
  from Deploy_success_channel [OF assms(1)] assms(2)
  obtain vs where c: "chan_events tz
      = map Sent ([0, 0, 0, 10, 15, 20, 25, 30] @ vs @ [35, 100]) @ [Closed]"
    and vs: "sorted_wrt (<) (30 # vs)" "\<forall>v\<in>set vs. v < 100"
    by auto
  have "sends (map Sent xs) = xs" for xs :: "int list"
    by (induction xs) simp_all
  with c have s: "sends tz = [0, 0, 0, 10, 15, 20, 25, 30] @ vs @ [35, 100]"
    using sends_chan_events [of tz] by (simp add: sends_append)
  from vs(1) have low: "\<forall>v\<in>set vs. 30 < v" and "sorted_wrt (<) vs"
    by simp_all
  then have "sorted vs"
    by (auto intro: sorted_wrt_mono_rel [of vs "(<)" "(\<le>)"])
  with low vs(2) show ?thesis
    unfolding s by (auto simp: sorted_append)
qed

text \<open>
  A run of the integer-channel revision on a service that accepts everything: the node
  is manageable at the first poll, available at the second, deploying at the next
  three and active at the sixth.
\<close>

lemma happy_run:
  "Deploy (service (answers [node_in Manageable, node_in Available, node_in Deploying,
      node_in Deploying, node_in Deploying] (node_in Active))) fresh (Some Drained)
  = Some (Returned None
      (fresh\<lparr>currentState := StateDone, currentPercent := 35, status := Some Drained\<rparr>)
     [Sent 0, Sent 0, CallUpdate ''1be26c0b'' (UpdateOpts fresh), Sent 0,
      CallChangeProvisionState ''1be26c0b'' ''manage'' [], Sent 10, CallGet ''1be26c0b'', Sent 15,
      CallChangeProvisionState ''1be26c0b'' ''provide'' [], Sent 20, CallGet ''1be26c0b'', Sent 25,
      CallChangeProvisionState ''1be26c0b'' ''active'' ''H4sIAAAA'', Sent 30,
      CallGet ''1be26c0b'', Sent 32, Slept, CallGet ''1be26c0b'', Sent 34, Slept,
      CallGet ''1be26c0b'', Sent 36, Slept, CallGet ''1be26c0b'', Sent 35, Sent 100, Closed])"
  by (simp add: run_defs examples state_names percents)

text \<open>
  C1. The claim is that in every successful run the percentages sent are non-decreasing,
  lie between 0 and 100, and the channel is closed once, after the final 100. On the run
  above the code reaches DONE without an error, every value lies between 0 and 100 and
  the trace ends with the 100 and the one close; but the values are
  0, 0, 0, 10, 15, 20, 25, 30, 32, 34, 36, 35, 100: after the ramp of \<open>waitDeploy\<close> has
  reached 36, \<open>nextState\<close> stores \<open>StateDeployPercent\<close> (35) and sends it. The sequence
  is not non-decreasing.
\<close>

theorem Deploy_percent_drops_after_ramp:
  "\<exists>d t. Deploy (service (answers [node_in Manageable, node_in Available, node_in Deploying,
        node_in Deploying, node_in Deploying] (node_in Active))) fresh (Some Drained)
      = Some (Returned None d t)
    \<and> currentState d = StateDone
    \<and> sends t = [0, 0, 0, 10, 15, 20, 25, 30, 32, 34, 36, 35, 100]
    \<and> \<not> sorted (sends t)
    \<and> list_all (\<lambda>v. 0 \<le> v \<and> v \<le> 100) (sends t)
    \<and> count_list t Closed = 1 \<and> drop (length t - 2) t = [Sent 100, Closed]"
  unfolding happy_run by (simp add: fresh_def)

text \<open>
  On the same answers the state-struct revision sends each state as it is entered, and
  the percentages do not drop.
\<close>

lemma happy_run_s:
  "\<exists>d t. Deploy_s (service (answers [node_in Manageable, node_in Available, node_in Deploying,
        node_in Deploying, node_in Deploying] (node_in Active))) fresh_s (Some Drained)
      = Some (Returned None d t)
    \<and> map Percentage_s (sends t) = [0, 5, 15, 20, 30, 35, 40, 50, 51, 52, 53, 100]
    \<and> count_list t Closed = 1 \<and> last t = Closed"
  by (simp add: run_defs examples state_names State_s_defs)

subsection \<open>How a run on a channel that is read comes to an end\<close>

text \<open>
  A polling loop is left otherwise than by \<open>break\<close> only on a nil node, except for
  the loop of \<open>waitProvide\<close>, which also returns an error from inside.
\<close>

lemma waitManage_loop_panics:
  assumes "for_loop (waitManage_body rem) (d, t) = Some (Inr out)"
  shows "\<exists>d' t'. out = Panicked d' t'"
  by (rule for_loop_leave [OF assms, where I = "\<lambda>_. True"])
    (auto simp: Let_def split: prod.splits option.splits if_splits)

lemma waitProvide_loop_returns:
  assumes "for_loop (waitProvide_body rem) (d, t) = Some (Inr out)"
  shows "(\<exists>d' t'. out = Panicked d' t') \<or> (\<exists>e t'. out = Returned (Some e) d t')"
  by (rule for_loop_leave [OF assms, where I = "\<lambda>(d1, t1). d1 = d"])
    (auto simp: Let_def split: prod.splits option.splits if_splits)

lemma waitDeploy_loop_panics:
  assumes "for_loop (waitDeploy_body rem) (d, t) = Some (Inr out)"
    and "status d = Some Drained"
  shows "\<exists>d' t'. out = Panicked d' t'"
  by (rule for_loop_leave [OF assms(1), where I = "\<lambda>(d1, t1). status d1 = Some Drained"])
    (auto simp: assms(2) Let_def send_def split: prod.splits option.splits if_splits)

lemma machine_settles:
  "status d = Some Drained \<longrightarrow> currentState d \<noteq> StateDone \<longrightarrow>
    (\<forall>out. nextState rem d t = Some out \<longrightarrow> settled out)"
  "status d = Some Drained \<longrightarrow> currentState d \<noteq> StateDone \<longrightarrow>
    (\<forall>out. configure rem d t = Some out \<longrightarrow> settled out)"
  "status d = Some Drained \<longrightarrow> currentState d \<noteq> StateDone \<longrightarrow>
    (\<forall>out. manage rem d t = Some out \<longrightarrow> settled out)"
  "status d = Some Drained \<longrightarrow> currentState d \<noteq> StateDone \<longrightarrow>
    (\<forall>out. waitManage rem d t = Some out \<longrightarrow> settled out)"
  "status d = Some Drained \<longrightarrow> currentState d \<noteq> StateDone \<longrightarrow>
    (\<forall>out. provide rem d t = Some out \<longrightarrow> settled out)"
  "status d = Some Drained \<longrightarrow> currentState d = StateWaitProvide \<longrightarrow> Error d = None \<longrightarrow>
    (\<forall>out. waitProvide rem d t = Some out \<longrightarrow> settled out)"
  "status d = Some Drained \<longrightarrow> currentState d \<noteq> StateDone \<longrightarrow>
    (\<forall>out. deploy rem d t = Some out \<longrightarrow> settled out)"
  "status d = Some Drained \<longrightarrow> currentState d \<noteq> StateDone \<longrightarrow>
    (\<forall>out. waitDeploy rem d t = Some out \<longrightarrow> settled out)"
proof (induction rem d t and rem d t and rem d t and rem d t and rem d t and rem d t
    and rem d t and rem d t
    rule: nextState_configure_manage_waitManage_provide_waitProvide_deploy_waitDeploy.induct)
  case (1 rem d t)
  show ?case
  proof (intro impI allI)
    fix out
    assume ch: "status d = Some Drained" and st: "currentState d \<noteq> StateDone"
      and run: "nextState rem d t = Some out"
    show "settled out"
    proof (cases "Error d")
      case (Some e)
      from nextState_error [OF Some ch, of rem t] run Some show ?thesis
        by (auto simp: settled_def)
    next
      case None
      from st obtain f d' where sw: "switch d = Some (f, d')"
        by (cases "currentState d") (simp_all add: switch_def)
      with ch have d': "status d' = Some Drained" "Error d' = Error d"
        by (auto simp: switch_def split: DeploymentState.splits)
      then have snd: "send (status d') (currentPercent d') t = Some (t @ [Sent (currentPercent d')])"
        by (simp add: send_def)
      note ih = "1" [OF _ sw refl snd]
      from sw have cases: "f = Fdone \<and> currentState d = StateWaitDeploy
          \<or> f \<noteq> Fdone \<and> currentState d' \<noteq> StateDone
            \<and> (f = FwaitProvide \<longrightarrow> currentState d' = StateWaitProvide)"
        by (auto simp: switch_def split: DeploymentState.splits)
      from run None sw snd have out: "(case f of Fconfigure \<Rightarrow> configure rem d' (t @ [Sent (currentPercent d')])
          | Fmanage \<Rightarrow> manage rem d' (t @ [Sent (currentPercent d')])
          | FwaitManage \<Rightarrow> waitManage rem d' (t @ [Sent (currentPercent d')])
          | Fprovide \<Rightarrow> provide rem d' (t @ [Sent (currentPercent d')])
          | FwaitProvide \<Rightarrow> waitProvide rem d' (t @ [Sent (currentPercent d')])
          | Fdeploy \<Rightarrow> deploy rem d' (t @ [Sent (currentPercent d')])
          | FwaitDeploy \<Rightarrow> waitDeploy rem d' (t @ [Sent (currentPercent d')])
          | Fdone \<Rightarrow> done' d' (t @ [Sent (currentPercent d')])) = Some out"
        by (simp add: nextState.simps)
      show ?thesis
      proof (cases f)
        case Fdone
        with out d' None show ?thesis
          by (auto simp: done'_def send_def settled_def percents)
      qed (use out cases d' None ih in auto)
    qed
  qed
next
  case (2 rem d t)
  then show ?case
    by (auto simp: configure.simps Let_def split: option.splits if_splits)
next
  case (3 rem d t)
  then show ?case
    by (auto simp: manage.simps Let_def split: option.splits)
next
  case (4 rem d t)
  show ?case
  proof (intro impI allI)
    fix out
    assume ch: "status d = Some Drained" and st: "currentState d \<noteq> StateDone"
      and run: "waitManage rem d t = Some out"
    then obtain r where r: "for_loop (waitManage_body rem) (d, t) = Some r"
      by (cases "for_loop (waitManage_body rem) (d, t)") (auto simp: waitManage.simps)
    show "settled out"
    proof (cases r)
      case (Inr o')
      with r run waitManage_loop_panics [of rem d t o'] show ?thesis
        by (auto simp: waitManage.simps settled_def)
    next
      case (Inl s')
      obtain d2 t2 where s': "s' = (d2, t2)" by (cases s')
      from r Inl s' have l: "for_loop (waitManage_body rem) (d, t) = Some (Inl (d2, t2))"
        by simp
      from waitManage_loop_quiet [OF l] ch st
      have "status d2 = Some Drained" "currentState d2 \<noteq> StateDone" by simp_all
      moreover from run l have "nextState rem d2 t2 = Some out"
        by (simp add: waitManage.simps)
      ultimately show ?thesis
        using "4" [OF r Inl s' [symmetric]] by simp
    qed
  qed
next
  case (5 rem d t)
  then show ?case
    by (auto simp: provide.simps Let_def)
next
  case (6 rem d t)
  show ?case
  proof (intro impI allI)
    fix out
    assume ch: "status d = Some Drained" and st: "currentState d = StateWaitProvide"
      and ok: "Error d = None" and run: "waitProvide rem d t = Some out"
    then obtain r where r: "for_loop (waitProvide_body rem) (d, t) = Some r"
      by (cases "for_loop (waitProvide_body rem) (d, t)") (auto simp: waitProvide.simps)
    show "settled out"
    proof (cases r)
      case (Inr o')
      with r run waitProvide_loop_returns [of rem d t o'] st ok show ?thesis
        by (auto simp: waitProvide.simps settled_def)
    next
      case (Inl s')
      obtain d2 t2 where s': "s' = (d2, t2)" by (cases s')
      from r Inl s' have l: "for_loop (waitProvide_body rem) (d, t) = Some (Inl (d2, t2))"
        by simp
      from waitProvide_loop_quiet [OF l] ch st
      have "status d2 = Some Drained" "currentState d2 \<noteq> StateDone" by simp_all
      moreover from run l have "nextState rem d2 t2 = Some out"
        by (simp add: waitProvide.simps)
      ultimately show ?thesis
        using "6" [OF r Inl s' [symmetric]] by simp
    qed
  qed
next
  case (7 rem d t)
  then show ?case
    by (auto simp: deploy.simps Let_def settled_def split: option.splits sum.splits)
next
  case (8 rem d t)
  show ?case
  proof (intro impI allI)
    fix out
    assume ch: "status d = Some Drained" and st: "currentState d \<noteq> StateDone"
      and run: "waitDeploy rem d t = Some out"
    then obtain r where r: "for_loop (waitDeploy_body rem) (d, t) = Some r"
      by (cases "for_loop (waitDeploy_body rem) (d, t)") (auto simp: waitDeploy.simps)
    show "settled out"
    proof (cases r)
      case (Inr o')
      with r run waitDeploy_loop_panics [of rem d t o'] ch show ?thesis
        by (auto simp: waitDeploy.simps settled_def)
    next
      case (Inl s')
      obtain d2 t2 where s': "s' = (d2, t2)" by (cases s')
      from r Inl s' have l: "for_loop (waitDeploy_body rem) (d, t) = Some (Inl (d2, t2))"
        by simp
      from waitDeploy_loop_sends [OF l ch] ch st
      have "status d2 = Some Drained" "currentState d2 \<noteq> StateDone" by auto
      moreover from run l have "nextState rem d2 t2 = Some out"
        by (simp add: waitDeploy.simps)
      ultimately show ?thesis
        using "8" [OF r Inl s' [symmetric]] by simp
    qed
  qed
qed


lemma Deploy_never_blocks:
  "Deploy rem d (Some Drained) \<noteq> Some (Blocked dz tz)"
proof
  let ?d1 = "d\<lparr>currentState := StateBegin, status := Some Drained\<rparr>"
  assume "Deploy rem d (Some Drained) = Some (Blocked dz tz)"
  then have "nextState rem ?d1 [Sent 0] = Some (Blocked dz tz)"
    by (auto simp: Deploy_def Let_def send_def close_deferred_def percents
        split: option.splits outcome.splits)
  with machine_settles(1) [of ?d1 rem "[Sent 0]"] show False
    by (simp add: settled_def)
qed

text \<open>The loops of the state-struct revision, and its machine.\<close>

lemma waitManage_loop_s_quiet:
  assumes "for_loop (waitManage_body_s rem) (d, t) = Some (Inl (d', t'))"
  shows "status_s d' = status_s d \<and> currentState_s d' = currentState_s d"
  by (rule for_loop_break [OF assms, where I = "\<lambda>(d1, t1). status_s d1 = status_s d
      \<and> currentState_s d1 = currentState_s d"])
    (auto simp: Let_def split: prod.splits option.splits if_splits)

lemma waitProvide_loop_s_quiet:
  assumes "for_loop (waitProvide_body_s node err) (d, t) = Some (Inl (d', t'))"
  shows "d' = d"
  by (rule for_loop_break [OF assms, where I = "\<lambda>(d1, t1). d1 = d"])
    (auto simp: Let_def split: prod.splits option.splits if_splits)

lemma waitDeploy_loop_s_quiet:
  assumes "for_loop (waitDeploy_body_s rem) (p, d, t) = Some (Inl (p', d', t'))"
  shows "status_s d' = status_s d \<and> currentState_s d' = currentState_s d"
  by (rule for_loop_break [OF assms, where I = "\<lambda>(p1, d1, t1). status_s d1 = status_s d
      \<and> currentState_s d1 = currentState_s d"])
    (auto simp: Let_def split: prod.splits option.splits if_splits)

lemma waitManage_loop_s_panics:
  assumes "for_loop (waitManage_body_s rem) (d, t) = Some (Inr out)"
  shows "\<exists>d' t'. out = Panicked d' t'"
  by (rule for_loop_leave [OF assms, where I = "\<lambda>_. True"])
    (auto simp: Let_def split: prod.splits option.splits if_splits)

lemma waitProvide_loop_s_returns:
  assumes "for_loop (waitProvide_body_s node err) (d, t) = Some (Inr out)"
  shows "(\<exists>d' t'. out = Panicked d' t') \<or> (\<exists>e t'. out = Returned (Some e) d t')"
  by (rule for_loop_leave [OF assms, where I = "\<lambda>(d1, t1). d1 = d"])
    (auto simp: Let_def split: prod.splits option.splits if_splits)

lemma waitDeploy_loop_s_panics:
  assumes "for_loop (waitDeploy_body_s rem) (p, d, t) = Some (Inr out)"
    and "status_s d = Some Drained"
  shows "\<exists>d' t'. out = Panicked d' t'"
  by (rule for_loop_leave [OF assms(1), where I = "\<lambda>(p1, d1, t1). status_s d1 = Some Drained"])
    (auto simp: assms(2) Let_def send_def split: prod.splits option.splits if_splits)

lemma switch_s_known:
  assumes "rank_s (currentState_s d) < 8"
  shows "\<exists>f d'. switch_s d = Some (f, d') \<and> status_s d' = status_s d \<and> Error_s d' = Error_s d
    \<and> (if f = Fdone then currentState_s d' = StateDone_s else rank_s (currentState_s d') < 8)
    \<and> (f = FwaitProvide \<longrightarrow> currentState_s d' = StateWaitProvide_s)"
  using assms unfolding switch_s_def Let_def rank_s_def
  by (simp add: State_s_defs split: if_splits)

lemma machine_s_settles:
  "status_s d = Some Drained \<longrightarrow> rank_s (currentState_s d) < 8 \<longrightarrow>
    (\<forall>out. nextState_s rem d t = Some out \<longrightarrow> settled_s out)"
  "status_s d = Some Drained \<longrightarrow> rank_s (currentState_s d) < 8 \<longrightarrow>
    (\<forall>out. configure_s rem d t = Some out \<longrightarrow> settled_s out)"
  "status_s d = Some Drained \<longrightarrow> rank_s (currentState_s d) < 8 \<longrightarrow>
    (\<forall>out. manage_s rem d t = Some out \<longrightarrow> settled_s out)"
  "status_s d = Some Drained \<longrightarrow> rank_s (currentState_s d) < 8 \<longrightarrow>
    (\<forall>out. waitManage_s rem d t = Some out \<longrightarrow> settled_s out)"
  "status_s d = Some Drained \<longrightarrow> rank_s (currentState_s d) < 8 \<longrightarrow>
    (\<forall>out. provide_s rem d t = Some out \<longrightarrow> settled_s out)"
  "status_s d = Some Drained \<longrightarrow> currentState_s d = StateWaitProvide_s \<longrightarrow> Error_s d = None \<longrightarrow>
    (\<forall>out. waitProvide_s rem d t = Some out \<longrightarrow> settled_s out)"
  "status_s d = Some Drained \<longrightarrow> rank_s (currentState_s d) < 8 \<longrightarrow>
    (\<forall>out. deploy_s rem d t = Some out \<longrightarrow> settled_s out)"
  "status_s d = Some Drained \<longrightarrow> rank_s (currentState_s d) < 8 \<longrightarrow>
    (\<forall>out. waitDeploy_s rem d t = Some out \<longrightarrow> settled_s out)"
proof (induction rem d t and rem d t and rem d t and rem d t and rem d t and rem d t
    and rem d t and rem d t
    rule: nextState_s_configure_s_manage_s_waitManage_s_provide_s_waitProvide_s_deploy_s_waitDeploy_s.induct)
  case (1 rem d t)
  show ?case
  proof (intro impI allI)
    fix out
    assume ch: "status_s d = Some Drained" and st: "rank_s (currentState_s d) < 8"
      and run: "nextState_s rem d t = Some out"
    show "settled_s out"
    proof (cases "Error_s d")
      case (Some e)
      from nextState_s_error [OF Some ch, of rem t] run Some show ?thesis
        by (auto simp: settled_s_def)
    next
      case None
      from switch_s_known [OF st] obtain f d' where sw: "switch_s d = Some (f, d')"
        and d': "status_s d' = status_s d" "Error_s d' = Error_s d"
        and cases: "if f = Fdone then currentState_s d' = StateDone_s
          else rank_s (currentState_s d') < 8"
          "f = FwaitProvide \<longrightarrow> currentState_s d' = StateWaitProvide_s"
        by blast
      let ?t' = "t @ [Sent (currentState_s d')]"
      have snd: "(if status_s d' \<noteq> None then send (status_s d') (currentState_s d') t
          else Some t) = Some ?t'"
        using d' ch by (simp add: send_def)
      have ne: "\<not> Error_s d \<noteq> None"
        using None by simp
      note ih = "1" [OF ne sw refl snd]
      from run None sw snd have out: "(case f of Fconfigure \<Rightarrow> configure_s rem d' ?t'
          | Fmanage \<Rightarrow> manage_s rem d' ?t'
          | FwaitManage \<Rightarrow> waitManage_s rem d' ?t'
          | Fprovide \<Rightarrow> provide_s rem d' ?t'
          | FwaitProvide \<Rightarrow> waitProvide_s rem d' ?t'
          | Fdeploy \<Rightarrow> deploy_s rem d' ?t'
          | FwaitDeploy \<Rightarrow> waitDeploy_s rem d' ?t'
          | Fdone \<Rightarrow> done_s d' ?t') = Some out"
        by (simp add: nextState_s.simps)
      show ?thesis
      proof (cases f)
        case Fdone
        with out d' None cases show ?thesis
          by (auto simp: done_s_def settled_s_def)
      qed (use out cases d' ch None ih in auto)
    qed
  qed
next
  case (2 rem d t)
  then show ?case
    by (auto simp: configure_s.simps Let_def split: option.splits if_splits)
next
  case (3 rem d t)
  then show ?case
    by (auto simp: manage_s.simps Let_def split: option.splits)
next
  case (4 rem d t)
  show ?case
  proof (intro impI allI)
    fix out
    assume ch: "status_s d = Some Drained" and st: "rank_s (currentState_s d) < 8"
      and run: "waitManage_s rem d t = Some out"
    then obtain r where r: "for_loop (waitManage_body_s rem) (d, t) = Some r"
      by (cases "for_loop (waitManage_body_s rem) (d, t)") (auto simp: waitManage_s.simps)
    show "settled_s out"
    proof (cases r)
      case (Inr o')
      with r run waitManage_loop_s_panics [of rem d t o'] show ?thesis
        by (auto simp: waitManage_s.simps settled_s_def)
    next
      case (Inl s')
      obtain d2 t2 where s': "s' = (d2, t2)" by (cases s')
      from r Inl s' have l: "for_loop (waitManage_body_s rem) (d, t) = Some (Inl (d2, t2))"
        by simp
      from waitManage_loop_s_quiet [OF l] ch st
      have "status_s d2 = Some Drained" "rank_s (currentState_s d2) < 8" by simp_all
      moreover from run l have "nextState_s rem d2 t2 = Some out"
        by (simp add: waitManage_s.simps)
      ultimately show ?thesis
        using "4" [OF r Inl s' [symmetric]] by simp
    qed
  qed
next
  case (5 rem d t)
  then show ?case
    by (auto simp: provide_s.simps Let_def)
next
  case (6 rem d t)
  show ?case
  proof (intro impI allI)
    fix out
    assume ch: "status_s d = Some Drained" and st: "currentState_s d = StateWaitProvide_s"
      and ok: "Error_s d = None" and run: "waitProvide_s rem d t = Some out"
    obtain node err1 where g: "Get_result rem (gets t) = (node, err1)"
      by (cases "Get_result rem (gets t)")
    let ?t1 = "t @ [CallGet (NodeUUID_s d)]"
    from run g obtain r where r: "for_loop (waitProvide_body_s node err1) (d, ?t1) = Some r"
      by (cases "for_loop (waitProvide_body_s node err1) (d, ?t1)")
        (auto simp: waitProvide_s.simps)
    show "settled_s out"
    proof (cases r)
      case (Inr o')
      with r g run waitProvide_loop_s_returns [of node err1 d ?t1 o'] st ok show ?thesis
        by (auto simp: waitProvide_s.simps settled_s_def)
    next
      case (Inl s')
      obtain d2 t2 where s': "s' = (d2, t2)" by (cases s')
      from r Inl s' have l: "for_loop (waitProvide_body_s node err1) (d, ?t1) = Some (Inl (d2, t2))"
        by simp
      from waitProvide_loop_s_quiet [OF l] have d2: "d2 = d" .
      have "rank_s StateWaitProvide_s < 8"
        by (simp add: rank_s_def State_s_defs)
      with d2 ch st
      have "status_s (d2\<lparr>Error_s := None\<rparr>) = Some Drained"
        "rank_s (currentState_s (d2\<lparr>Error_s := None\<rparr>)) < 8" by simp_all
      moreover from run g l have "nextState_s rem (d2\<lparr>Error_s := None\<rparr>) t2 = Some out"
        by (simp add: waitProvide_s.simps)
      ultimately show ?thesis
        using "6" [OF refl g [symmetric] r Inl s' [symmetric]] by simp
    qed
  qed
next
  case (7 rem d t)
  then show ?case
    by (auto simp: deploy_s.simps Let_def settled_s_def split: option.splits sum.splits)
next
  case (8 rem d t)
  show ?case
  proof (intro impI allI)
    fix out
    assume ch: "status_s d = Some Drained" and st: "rank_s (currentState_s d) < 8"
      and run: "waitDeploy_s rem d t = Some out"
    then obtain r where r: "for_loop (waitDeploy_body_s rem) (50, d, t) = Some r"
      by (cases "for_loop (waitDeploy_body_s rem) (50, d, t)") (auto simp: waitDeploy_s.simps)
    show "settled_s out"
    proof (cases r)
      case (Inr o')
      with r run waitDeploy_loop_s_panics [of rem 50 d t o'] ch show ?thesis
        by (auto simp: waitDeploy_s.simps settled_s_def)
    next
      case (Inl s')
      obtain p2 d2 t2 where s': "s' = (p2, d2, t2)" by (cases s')
      from r Inl s' have l: "for_loop (waitDeploy_body_s rem) (50, d, t) = Some (Inl (p2, d2, t2))"
        by simp
      from waitDeploy_loop_s_quiet [OF l] ch st
      have "status_s d2 = Some Drained" "rank_s (currentState_s d2) < 8" by auto
      moreover from run l have "nextState_s rem d2 t2 = Some out"
        by (simp add: waitDeploy_s.simps)
      ultimately show ?thesis
        using "8" [OF r Inl s' [symmetric] refl] by simp
    qed
  qed
qed

text \<open>
  A run of the state-struct revision on a channel that is read returns in the same
  two ways: the stored error after the state DONE (no error) or ERROR was sent and the
  channel closed, or an error that is not stored, from WAIT_PROVIDE.
\<close>

lemma Deploy_s_settles:
  assumes "Deploy_s rem d (Some Drained) = Some (Returned e dz tz)"
  shows "Error_s dz = e
      \<and> (\<exists>t0. tz = t0 @ [Sent (if e = None then StateDone_s else StateError_s), Closed])
    \<or> e \<noteq> None \<and> Error_s dz = None \<and> currentState_s dz = StateWaitProvide_s"
proof -
  let ?d1 = "d\<lparr>currentState_s := StateBegin_s, status_s := Some Drained\<rparr>"
  from assms obtain t1 where n: "nextState_s rem ?d1 [Sent StateBegin_s] = Some (Returned e dz t1)"
    and tz: "tz = t1 @ [Closed]"
    by (auto simp: Deploy_s_def Let_def send_def close_deferred_def
        split: option.splits outcome.splits)
  have "rank_s (currentState_s ?d1) < 8"
    by (simp add: rank_s_def)
  with machine_s_settles(1) [of ?d1 rem "[Sent StateBegin_s]"] n
  have "settled_s (Returned e dz t1)"
    by simp
  then consider "Error_s dz = e" "t1 \<noteq> []"
      "last t1 = Sent (if e = None then StateDone_s else StateError_s)"
    | "e \<noteq> None" "Error_s dz = None" "currentState_s dz = StateWaitProvide_s"
    by (auto simp: settled_s_def)
  then show ?thesis
  proof cases
    case 1
    from 1(2,3) have "t1 = butlast t1 @ [Sent (if e = None then StateDone_s else StateError_s)]"
      using append_butlast_last_id [of t1] by simp
    with tz have "tz = butlast t1 @ [Sent (if e = None then StateDone_s else StateError_s), Closed]"
      by simp
    with 1(1) show ?thesis by blast
  next
    case 2
    then show ?thesis by simp
  qed
qed

subsection \<open>An unexpected state while waiting for manageable\<close>

text \<open>
  When every poll finds the node in a state that is neither the target nor the wait
  state, every iteration of the loop of \<open>waitManage\<close> stores an error and goes round
  again: the branch has no \<open>break\<close>.
\<close>

lemma waitManage_never_ends:
  assumes "\<And>k. Get_result rem k = node_in s" and "s \<noteq> Manageable" and "s \<noteq> Verifying"
  shows "for_loop (waitManage_body rem) (d, t) = None"
  by (rule for_loop_diverges [where I = "\<lambda>_. True"]) (auto simp: assms node_in_def)

lemma waitManage_s_never_ends:
  assumes "\<And>k. Get_result rem k = node_in s" and "s \<noteq> Manageable" and "s \<noteq> Verifying"
  shows "for_loop (waitManage_body_s rem) (d, t) = None"
  by (rule for_loop_diverges [where I = "\<lambda>_. True"]) (auto simp: assms node_in_def)

text \<open>
  C2. The claim is that a run in which a poll during WAIT_MANAGE observes a state other
  than "manageable" and "verifying" terminates in ERROR with the error populated, and
  never requests "provide". On a node that stays in "enroll" the run does not
  terminate, in either revision: the loop of \<open>waitManage\<close> polls for ever.
\<close>

theorem Deploy_polls_for_ever_in_enroll:
  "Deploy (service (answers [] (node_in ''enroll''))) fresh (Some Drained) = None
   \<and> Deploy_s (service (answers [] (node_in ''enroll''))) fresh_s (Some Drained) = None"
proof -
  have g: "Get_result (service (answers [] (node_in ''enroll''))) k = node_in ''enroll''" for k
    by (simp add: service_def answers_def)
  have s: "''enroll'' \<noteq> Manageable" "''enroll'' \<noteq> Verifying"
    by (simp_all add: state_names)
  note l = waitManage_never_ends [OF g s] waitManage_s_never_ends [OF g s]
  show ?thesis
    by (simp add: Deploy_def Deploy_s_def close_deferred_def switch_def switch_s_def send_def
        Let_def service_def fresh_def fresh_s_def percents State_s_defs machine machine_s
        l [unfolded service_def])
qed

text \<open>
  What does hold of the claim: when the loop of \<open>waitManage\<close> has seen such a state
  and the run comes to an end all the same, no request for "provide" was made, and if
  the run returned, it returned an error that is stored on the deployment.
\<close>

lemma waitManage_unexpected_state:
  assumes poll: "Get_result rem (gets t) = (Some n, None)"
    and other: "ProvisionState n \<noteq> Manageable" "ProvisionState n \<noteq> Verifying"
    and ch: "status d = Some Drained"
    and quiet: "\<not> list_ex (is_request ''provide'') t"
    and run: "waitManage rem d t = Some out"
  shows "\<not> list_ex (is_request ''provide'') (trace_of out)
    \<and> (\<forall>e d' t'. out = Returned e d' t' \<longrightarrow> e \<noteq> None \<and> Error d' = e)"
proof -
  let ?I = "\<lambda>(d1, t1). Error d1 \<noteq> None \<and> status d1 = Some Drained
      \<and> \<not> list_ex (is_request ''provide'') t1"
  let ?d1 = "d\<lparr>Error := Some (''manage failed: '' @ Name n @ '' current state is: ''
      @ ProvisionState n)\<rparr>"
  let ?t1 = "t @ [CallGet (NodeUUID d)]"
  have first: "waitManage_body rem (d, t) = Again (?d1, ?t1)"
    using poll other by simp
  have init: "?I (?d1, ?t1)"
    using ch quiet by simp
  have keep: "?I s'" if "?I s" and "waitManage_body rem s = Again s'" for s s'
    using that by (cases s, cases s')
      (auto simp: Let_def split: prod.splits option.splits if_splits)
  obtain r where r: "for_loop (waitManage_body rem) (?d1, ?t1) = Some r"
    and out: "(case r of Inl (d', t') \<Rightarrow> nextState rem d' t' | Inr out' \<Rightarrow> Some out') = Some out"
    using run first
    by (cases "for_loop (waitManage_body rem) (?d1, ?t1)")
      (auto simp: waitManage.simps for_loop.simps [of _ "(d, t)"] split: sum.splits)
  have "\<exists>s0. ?I s0 \<and> (case r of Inl s' \<Rightarrow> waitManage_body rem s0 = Break s'
      | Inr out' \<Rightarrow> waitManage_body rem s0 = Leave out')"
    by (rule for_loop_invariant [where I = ?I, OF r init]) (rule keep)
  then obtain d0 t0 where i0: "Error d0 \<noteq> None" "status d0 = Some Drained"
      "\<not> list_ex (is_request ''provide'') t0"
    and exit: "case r of Inl s' \<Rightarrow> waitManage_body rem (d0, t0) = Break s'
      | Inr out' \<Rightarrow> waitManage_body rem (d0, t0) = Leave out'"
    by auto
  show ?thesis
  proof (cases r)
    case (Inl s')
    obtain d' t' where s': "s' = (d', t')" by (cases s')
    from exit Inl s' have b: "waitManage_body rem (d0, t0) = Break (d', t')" by simp
    with i0 have "Error d' \<noteq> None" "status d' = Some Drained"
        "\<not> list_ex (is_request ''provide'') t'"
      by (auto simp: Let_def split: prod.splits option.splits if_splits)
    moreover from out Inl s' have "nextState rem d' t' = Some out" by simp
    ultimately show ?thesis
      by (auto simp: nextState_error)
  next
    case (Inr out')
    with out have "out' = out" by simp
    with exit Inr i0 show ?thesis
      by (auto simp: Let_def split: prod.splits option.splits if_splits)
  qed
qed

subsection \<open>An unexpected state while waiting for available\<close>

text \<open>
  The node is manageable at the first poll and is found in "clean failed" at the
  second, in both revisions.
\<close>

lemma provide_failed_run:
  "Deploy (service (answers [node_in Manageable] (node_in ''clean failed''))) fresh (Some Drained)
  = Some (Returned (Some ''provide failed, node-0 current state is: clean failed'')
      (fresh\<lparr>currentState := StateWaitProvide, currentPercent := 20, status := Some Drained\<rparr>)
     [Sent 0, Sent 0, CallUpdate ''1be26c0b'' (UpdateOpts fresh), Sent 0,
      CallChangeProvisionState ''1be26c0b'' ''manage'' [], Sent 10, CallGet ''1be26c0b'', Sent 15,
      CallChangeProvisionState ''1be26c0b'' ''provide'' [], Sent 20, CallGet ''1be26c0b'', Closed])"
  by (simp add: run_defs examples state_names percents)

lemma provide_failed_run_s:
  "Deploy_s (service (answers [node_in Manageable] (node_in ''clean failed''))) fresh_s (Some Drained)
  = Some (Returned (Some ''provide failed, node's current state is: clean failed'')
      (fresh_s\<lparr>currentState_s := StateWaitProvide_s, status_s := Some Drained\<rparr>)
     [Sent StateBegin_s, Sent StateConfigure_s, CallUpdate ''1be26c0b'' (UpdateOpts_s fresh_s),
      Sent StateManage_s, CallChangeProvisionState ''1be26c0b'' ''manage'' [],
      Sent StateWaitManage_s, CallGet ''1be26c0b'', Sent StateProvide_s,
      CallChangeProvisionState ''1be26c0b'' ''provide'' [], Sent StateWaitProvide_s,
      CallGet ''1be26c0b'', Closed])"
  by (simp add: run_defs examples state_names State_s_defs)

text \<open>
  C3. The claim is that every error is recorded on the \<open>Error\<close> field and sends the
  state machine to ERROR, and in particular that an unexpected provision state seen
  during WAIT_PROVIDE is recorded before the run returns. On the run above \<open>Deploy\<close>
  returns the error "provide failed, ..." while the \<open>Error\<close> field of the deployment
  is still nil and the current state is still WAIT_PROVIDE, in both revisions:
  \<open>waitProvide\<close> returns the error itself instead of storing it.
\<close>

theorem waitProvide_error_not_recorded:
  "(\<exists>d t. Deploy (service (answers [node_in Manageable] (node_in ''clean failed''))) fresh
        (Some Drained)
      = Some (Returned (Some ''provide failed, node-0 current state is: clean failed'') d t)
      \<and> Error d = None \<and> currentState d = StateWaitProvide)
   \<and> (\<exists>d t. Deploy_s (service (answers [node_in Manageable] (node_in ''clean failed''))) fresh_s
        (Some Drained)
      = Some (Returned (Some ''provide failed, node's current state is: clean failed'') d t)
      \<and> Error_s d = None \<and> currentState_s d = StateWaitProvide_s)"
  unfolding provide_failed_run provide_failed_run_s by (simp add: fresh_def fresh_s_def)

text \<open>
  In the state-struct revision a poll that fails during WAIT_PROVIDE is not recorded
  either: the loop is not entered, the outer \<open>err\<close> that is stored is nil, and the run
  goes on to request "active" and ends without an error.
\<close>

lemma failed_poll_ignored_in_waitProvide_s:
  "\<exists>d t. Deploy_s (service (answers [node_in Manageable, poll_fails ''connection refused'']
        (node_in Active))) fresh_s (Some Drained) = Some (Returned None d t)
     \<and> list_ex (is_request ''active'') t"
  by (simp add: run_defs examples state_names State_s_defs)

subsection \<open>The weights of the states\<close>


































subsection \<open>CONFIGURE without patch operations\<close>



text \<open>The same holds in the other revision, whether or not it has a channel.\<close>

lemma configure_s_without_patches:
  assumes "UpdateOpts_s d = []" and "Error_s d = None"
    and "currentState_s d = StateConfigure_s" and "status_s d \<noteq> Some Unread"
  shows "\<exists>d2. configure_s rem d t
      = nextState_s rem d2
          ((if status_s d = None then t else t @ [Sent StateManage_s])
            @ [CallChangeProvisionState (NodeUUID_s d) ''manage'' []])
    \<and> currentState_s d2 = StateManage_s \<and> UpdateOpts_s d2 = []"
proof -
  let ?d1 = "d\<lparr>currentState_s := StateManage_s\<rparr>"
  let ?t1 = "if status_s d = None then t else t @ [Sent StateManage_s]"
  have "configure_s rem d t = nextState_s rem d t"
    using assms(1) by (simp add: configure_s.simps)
  also have "\<dots> = manage_s rem ?d1 ?t1"
    using assms(2-4)
    by (cases "status_s d")
      (auto simp: nextState_s.simps switch_s_def send_def State_s_defs split: chan.splits)
  also have "\<dots> = nextState_s rem
      (case ChangeProvisionState_result rem ''manage'' of
         Some e \<Rightarrow> ?d1\<lparr>Error_s := Some e\<rparr> | None \<Rightarrow> ?d1)
      (?t1 @ [CallChangeProvisionState (NodeUUID_s d) ''manage'' []])"
    by (simp add: manage_s.simps Let_def split: option.splits)
  finally show ?thesis
    using assms(1) by (auto split: option.splits)
qed

text \<open>
  In the integer-channel revision the rest of the run makes no patch call either:
  no state but CONFIGURE calls \<open>Update\<close>, and no state changes the list of patch
  operations.
\<close>

lemma unpatched_loops:
  assumes "unpatched d t"
  shows "for_loop (waitManage_body rem) (d, t) = Some r \<Longrightarrow>
      (case r of Inl (d', t') \<Rightarrow> unpatched d' t' | Inr out \<Rightarrow> \<not> list_ex is_CallUpdate (trace_of out))"
    and "for_loop (waitProvide_body rem) (d, t) = Some r \<Longrightarrow>
      (case r of Inl (d', t') \<Rightarrow> unpatched d' t' | Inr out \<Rightarrow> \<not> list_ex is_CallUpdate (trace_of out))"
    and "for_loop (waitDeploy_body rem) (d, t) = Some r \<Longrightarrow>
      (case r of Inl (d', t') \<Rightarrow> unpatched d' t' | Inr out \<Rightarrow> \<not> list_ex is_CallUpdate (trace_of out))"
proof -
  let ?I = "\<lambda>(d1, t1). unpatched d1 t1"
  let ?J = "\<lambda>r. case r of Inl (d', t') \<Rightarrow> unpatched d' t'
    | Inr out \<Rightarrow> \<not> list_ex is_CallUpdate (trace_of out)"
  show "?J r" if "for_loop (waitManage_body rem) (d, t) = Some r"
  proof (cases r)
    case (Inl s')
    show ?thesis
      by (rule for_loop_break [OF that [unfolded Inl], where I = ?I])
        (use assms Inl in \<open>auto simp: unpatched_def Let_def
          split: prod.splits option.splits if_splits\<close>)
  next
    case (Inr out)
    show ?thesis
      by (rule for_loop_leave [OF that [unfolded Inr], where I = ?I])
        (use assms Inr in \<open>auto simp: unpatched_def Let_def
          split: prod.splits option.splits if_splits\<close>)
  qed
  show "?J r" if "for_loop (waitProvide_body rem) (d, t) = Some r"
  proof (cases r)
    case (Inl s')
    show ?thesis
      by (rule for_loop_break [OF that [unfolded Inl], where I = ?I])
        (use assms Inl in \<open>auto simp: unpatched_def Let_def
          split: prod.splits option.splits if_splits\<close>)
  next
    case (Inr out)
    show ?thesis
      by (rule for_loop_leave [OF that [unfolded Inr], where I = ?I])
        (use assms Inr in \<open>auto simp: unpatched_def Let_def
          split: prod.splits option.splits if_splits\<close>)
  qed
  show "?J r" if "for_loop (waitDeploy_body rem) (d, t) = Some r"
  proof (cases r)
    case (Inl s')
    show ?thesis
      by (rule for_loop_break [OF that [unfolded Inl], where I = ?I])
        (use assms Inl in \<open>auto simp: unpatched_def Let_def send_def
          split: prod.splits option.splits if_splits chan.splits\<close>)
  next
    case (Inr out)
    show ?thesis
      by (rule for_loop_leave [OF that [unfolded Inr], where I = ?I])
        (use assms Inr in \<open>auto simp: unpatched_def Let_def send_def
          split: prod.splits option.splits if_splits chan.splits\<close>)
  qed
qed

lemma unpatched_switch:
  assumes "unpatched d t" and "switch d = Some (f, d')"
    and "send (status d') (currentPercent d') t = Some t'"
  shows "unpatched d' t'"
  using assms
  by (auto simp: unpatched_def switch_def send_def
      split: DeploymentState.splits option.splits chan.splits)

lemma machine_unpatched:
  "unpatched d t \<longrightarrow>
    (\<forall>out. nextState rem d t = Some out \<longrightarrow> \<not> list_ex is_CallUpdate (trace_of out))"
  "unpatched d t \<longrightarrow>
    (\<forall>out. configure rem d t = Some out \<longrightarrow> \<not> list_ex is_CallUpdate (trace_of out))"
  "unpatched d t \<longrightarrow>
    (\<forall>out. manage rem d t = Some out \<longrightarrow> \<not> list_ex is_CallUpdate (trace_of out))"
  "unpatched d t \<longrightarrow>
    (\<forall>out. waitManage rem d t = Some out \<longrightarrow> \<not> list_ex is_CallUpdate (trace_of out))"
  "unpatched d t \<longrightarrow>
    (\<forall>out. provide rem d t = Some out \<longrightarrow> \<not> list_ex is_CallUpdate (trace_of out))"
  "unpatched d t \<longrightarrow>
    (\<forall>out. waitProvide rem d t = Some out \<longrightarrow> \<not> list_ex is_CallUpdate (trace_of out))"
  "unpatched d t \<longrightarrow>
    (\<forall>out. deploy rem d t = Some out \<longrightarrow> \<not> list_ex is_CallUpdate (trace_of out))"
  "unpatched d t \<longrightarrow>
    (\<forall>out. waitDeploy rem d t = Some out \<longrightarrow> \<not> list_ex is_CallUpdate (trace_of out))"
proof (induction rem d t and rem d t and rem d t and rem d t and rem d t and rem d t
    and rem d t and rem d t
    rule: nextState_configure_manage_waitManage_provide_waitProvide_deploy_waitDeploy.induct)
  case (1 rem d t)
  show ?case
  proof (intro impI allI)
    fix out
    assume u: "unpatched d t" and run: "nextState rem d t = Some out"
    show "\<not> list_ex is_CallUpdate (trace_of out)"
    proof (cases "Error d \<noteq> None")
      case True
      with run u show ?thesis
        by (auto simp: nextState.simps done'_def send_def unpatched_def
            split: option.splits chan.splits)
    next
      case False
      show ?thesis
      proof (cases "switch d")
        case None
        with run False u show ?thesis
          by (auto simp: nextState.simps unpatched_def)
      next
        case (Some x)
        obtain f d' where x: "x = (f, d')" by (cases x)
        show ?thesis
        proof (cases "send (status d') (currentPercent d') t")
          case None
          with run False Some x u show ?thesis
            by (auto simp: nextState.simps unpatched_def)
        next
          case (Some t')
          note ih = "1" [OF False \<open>switch d = Some x\<close> x [symmetric] Some]
          from unpatched_switch [OF u \<open>switch d = Some x\<close> [unfolded x] Some]
          have u': "unpatched d' t'" .
          from run False \<open>switch d = Some x\<close> x Some
          have "(case f of Fconfigure \<Rightarrow> configure rem d' t' | Fmanage \<Rightarrow> manage rem d' t'
              | FwaitManage \<Rightarrow> waitManage rem d' t' | Fprovide \<Rightarrow> provide rem d' t'
              | FwaitProvide \<Rightarrow> waitProvide rem d' t' | Fdeploy \<Rightarrow> deploy rem d' t'
              | FwaitDeploy \<Rightarrow> waitDeploy rem d' t' | Fdone \<Rightarrow> done' d' t') = Some out"
            by (simp add: nextState.simps)
          with u' ih show ?thesis
            by (cases f)
              (auto simp: done'_def send_def unpatched_def split: option.splits chan.splits)
        qed
      qed
    qed
  qed
next
  case (2 rem d t)
  then show ?case
    by (auto simp: configure.simps unpatched_def)
next
  case (3 rem d t)
  then show ?case
    by (auto simp: manage.simps Let_def unpatched_def split: option.splits)
next
  case (4 rem d t)
  show ?case
  proof (intro impI allI)
    fix out
    assume u: "unpatched d t" and run: "waitManage rem d t = Some out"
    then obtain r where r: "for_loop (waitManage_body rem) (d, t) = Some r"
      by (cases "for_loop (waitManage_body rem) (d, t)") (auto simp: waitManage.simps)
    from unpatched_loops(1) [OF u r] run r "4" [OF r]
    show "\<not> list_ex is_CallUpdate (trace_of out)"
      by (cases r) (auto simp: waitManage.simps)
  qed
next
  case (5 rem d t)
  then show ?case
    by (auto simp: provide.simps Let_def unpatched_def)
next
  case (6 rem d t)
  show ?case
  proof (intro impI allI)
    fix out
    assume u: "unpatched d t" and run: "waitProvide rem d t = Some out"
    then obtain r where r: "for_loop (waitProvide_body rem) (d, t) = Some r"
      by (cases "for_loop (waitProvide_body rem) (d, t)") (auto simp: waitProvide.simps)
    from unpatched_loops(2) [OF u r] run r "6" [OF r]
    show "\<not> list_ex is_CallUpdate (trace_of out)"
      by (cases r) (auto simp: waitProvide.simps)
  qed
next
  case (7 rem d t)
  then show ?case
    by (auto simp: deploy.simps Let_def unpatched_def split: option.splits sum.splits)
next
  case (8 rem d t)
  show ?case
  proof (intro impI allI)
    fix out
    assume u: "unpatched d t" and run: "waitDeploy rem d t = Some out"
    then obtain r where r: "for_loop (waitDeploy_body rem) (d, t) = Some r"
      by (cases "for_loop (waitDeploy_body rem) (d, t)") (auto simp: waitDeploy.simps)
    from unpatched_loops(3) [OF u r] run r "8" [OF r]
    show "\<not> list_ex is_CallUpdate (trace_of out)"
      by (cases r) (auto simp: waitDeploy.simps)
  qed
qed

lemma Deploy_without_patches:
  assumes "UpdateOpts d = []" and "Deploy rem d c = Some out"
  shows "\<not> list_ex is_CallUpdate (trace_of out)"
proof -
  have u: "unpatched (d\<lparr>currentState := StateBegin, status := s\<rparr>) [Sent 0]"
      "unpatched (d\<lparr>currentState := StateBegin, status := s\<rparr>) []" for s
    using assms(1) by (simp_all add: unpatched_def)
  have close: "\<not> list_ex is_CallUpdate (trace_of out)"
    if "close_deferred r = Some out"
      and "\<And>o'. r = Some o' \<Longrightarrow> \<not> list_ex is_CallUpdate (trace_of o')" for r
    using that by (cases r; cases "the r") (auto simp: close_deferred_def)
  show ?thesis
  proof (cases c)
    case None
    with assms(2) have "close_deferred (nextState rem
        (d\<lparr>currentState := StateBegin, status := Some Unread\<rparr>) []) = Some out"
      by (simp add: Deploy_def Let_def)
    then show ?thesis
      using machine_unpatched(1) [of "d\<lparr>currentState := StateBegin, status := Some Unread\<rparr>"
          "[]" rem] u(2)
      by (intro close) auto
  next
    case (Some ch)
    show ?thesis
    proof (cases "send (Some ch) StateBeginPercent ([] :: int event list)")
      case None
      with assms(2) Some show ?thesis
        by (auto simp: Deploy_def Let_def)
    next
      case (Some t1)
      then have t1: "t1 = [Sent 0]"
        by (auto simp: send_def percents split: chan.splits)
      with assms(2) \<open>c = Some ch\<close> Some have "close_deferred (nextState rem
          (d\<lparr>currentState := StateBegin, status := Some ch\<rparr>) [Sent 0]) = Some out"
        by (simp add: Deploy_def Let_def)
      then show ?thesis
        using machine_unpatched(1) [of "d\<lparr>currentState := StateBegin, status := Some ch\<rparr>"
            "[Sent 0]" rem] u(1)
        by (intro close) auto
    qed
  qed
qed

subsection \<open>The config drive\<close>

text \<open>
  C6. When a build succeeds on a spec with user data, the user data serialised
  without error to some bytes, the tree below the temporary directory has exactly those
  bytes at \<open>openstack/latest/user_data\<close>, and the string returned is the base64
  encoding of the gzip-compressed ISO image of that tree.
\<close>

theorem ToConfigDrive_user_data:
  assumes "ToConfigDrive lib h configDrive fs = Inr (result, fs')"
    and "UserData configDrive = Some u"
  shows "\<exists>directory data.
    TempDir_result h = Inr directory \<and>
    ToUserData lib u = Inr data \<and>
    tree fs' directory ''openstack/latest/user_data'' = Some data \<and>
    result = EncodeToString lib (gzip lib (iso9660 lib (tree fs' directory)))"
  using assms
  by (auto simp: ToConfigDrive_def PackDirectoryAsISO_def WriteFile_def tree_def Let_def
      split: sum.splits option.splits)

lemma build0:
  "ToConfigDrive lib0 host0
     \<lparr>UserData = Some (UserDataString ''#cloud-init''), MetaData = Some ''{}'',
      NetworkData = None\<rparr> Map.empty
   = Inr (''base64(gzip(iso(user_data=#cloud-init)))'',
       [''/tmp/gophercloud042/openstack/latest/user_data'' \<mapsto> ''#cloud-init'',
        ''/tmp/gophercloud042/openstack/latest/meta_data.json'' \<mapsto> ''{}''])"
  by (simp add: ToConfigDrive_def PackDirectoryAsISO_def WriteFile_def tree_def lib0_def
      host0_def)

theorem ToConfigDrive_user_data_witness:
  "\<exists>result fs'. ToConfigDrive lib0 host0
       \<lparr>UserData = Some (UserDataString ''#cloud-init''), MetaData = Some ''{}'',
        NetworkData = None\<rparr> Map.empty = Inr (result, fs')
     \<and> tree fs' ''/tmp/gophercloud042'' ''openstack/latest/user_data'' = Some ''#cloud-init''
     \<and> result = EncodeToString lib0 (gzip lib0 (iso9660 lib0 (tree fs' ''/tmp/gophercloud042'')))"
  using ToConfigDrive_user_data [OF build0, of "UserDataString ''#cloud-init''"]
  unfolding build0 by (auto simp: host0_def)

text \<open>
  With decoders that undo base64 and gzip, and a way to mount the image that finds at
  \<open>openstack/latest/user_data\<close> the file that was there when the image was made,
  the file is read back from the returned string. The stand-ins have such decoders.
\<close>

lemma ToConfigDrive_round_trip:
  assumes "ToConfigDrive lib h configDrive fs = Inr (result, fs')"
    and "UserData configDrive = Some u"
    and "\<And>b. decode (EncodeToString lib b) = b"
    and "\<And>b. gunzip (gzip lib b) = b"
    and "\<And>tr. mount (iso9660 lib tr) ''openstack/latest/user_data''
      = tr ''openstack/latest/user_data''"
  shows "\<exists>data. ToUserData lib u = Inr data
    \<and> mount (gunzip (decode result)) ''openstack/latest/user_data'' = Some data"
  using assms
  by (auto simp: ToConfigDrive_def PackDirectoryAsISO_def WriteFile_def tree_def Let_def
      split: sum.splits option.splits)

lemma decoders0:
  "decode0 (EncodeToString lib0 b) = b"
  "gunzip0 (gzip lib0 b) = b"
  "mount0 (iso9660 lib0 tr) ''openstack/latest/user_data'' = tr ''openstack/latest/user_data''"
  by (auto simp: decode0_def gunzip0_def mount0_def lib0_def butlast_append
      split: option.splits)

lemma ToConfigDrive_round_trip_example:
  "mount0 (gunzip0 (decode0 ''base64(gzip(iso(user_data=#cloud-init)))''))
     ''openstack/latest/user_data'' = Some ''#cloud-init''"
  using ToConfigDrive_round_trip [where decode = decode0 and gunzip = gunzip0
      and mount = mount0 and u = "UserDataString ''#cloud-init''", OF build0 _ decoders0]
  by simp

subsection \<open>Literal user data\<close>

text \<open>
  C7. Serialising a literal (string) user-data payload never fails, whatever the JSON
  encoder does, and returns exactly the bytes of the string: nothing is trimmed or
  re-encoded.
\<close>

theorem UserDataString_ToUserData_exact:
  "ToUserData lib (UserDataString s) = Inr s"
  by simp

subsection \<open>A failed poll while waiting for active\<close>

text \<open>
  In the integer-channel revision a failed poll ends the loop of \<open>waitDeploy\<close> with
  the error stored, whatever node came with the error, a nil pointer included.
\<close>

lemma waitDeploy_body_failed_poll:
  assumes "Get_result rem (gets t) = (node, Some e)"
  shows "waitDeploy_body rem (d, t) = Break (d\<lparr>Error := Some e\<rparr>, t @ [CallGet (NodeUUID d)])"
  using assms by simp

text \<open>
  In the other revision the branch for the error has no \<open>break\<close>. The third poll of
  this run fails with "connection refused".
\<close>

lemma failed_poll_run_s:
  "Deploy_s (service (answers [node_in Manageable, node_in Available]
      (poll_fails ''connection refused''))) fresh_s (Some Drained)
  = Some (Returned (Some ''deploy failed: node's current state is: '')
      (fresh_s\<lparr>currentState_s := StateWaitDeploy_s, status_s := Some Drained,
         Error_s := Some ''deploy failed: node's current state is: ''\<rparr>)
     [Sent StateBegin_s, Sent StateConfigure_s, CallUpdate ''1be26c0b'' (UpdateOpts_s fresh_s),
      Sent StateManage_s, CallChangeProvisionState ''1be26c0b'' ''manage'' [],
      Sent StateWaitManage_s, CallGet ''1be26c0b'', Sent StateProvide_s,
      CallChangeProvisionState ''1be26c0b'' ''provide'' [], Sent StateWaitProvide_s,
      CallGet ''1be26c0b'', Sent StateDeploy_s,
      CallChangeProvisionState ''1be26c0b'' ''active'' ''H4sIAAAA'', Sent StateWaitDeploy_s,
      CallGet ''1be26c0b'', Sent StateError_s, Closed])"
  by (simp add: run_defs examples state_names State_s_defs)

text \<open>
  C8. The claim is that during WAIT_DEPLOY a failed poll ends the loop and the node
  that came with the error is not inspected. In the state-struct revision the loop
  goes on to compare the provision state of that node, finds the empty string, and
  replaces the stored "connection refused" by "deploy failed: node's current state
  is: ", which is the error the run ends with; were the node a nil pointer, the read
  would panic. The integer-channel revision returns "connection refused" on the same
  answers.
\<close>

theorem waitDeploy_s_reads_node_after_failed_poll:
  "(\<exists>d t. Deploy_s (service (answers [node_in Manageable, node_in Available]
        (poll_fails ''connection refused''))) fresh_s (Some Drained)
      = Some (Returned (Some ''deploy failed: node's current state is: '') d t)
      \<and> Error_s d = Some ''deploy failed: node's current state is: '')
   \<and> (\<exists>d t. Deploy_s (service (answers [node_in Manageable, node_in Available]
        (None, Some ''connection refused''))) fresh_s (Some Drained) = Some (Panicked d t))
   \<and> (\<exists>d t. Deploy (service (answers [node_in Manageable, node_in Available]
        (poll_fails ''connection refused''))) fresh (Some Drained)
      = Some (Returned (Some ''connection refused'') d t)
      \<and> Error d = Some ''connection refused'')"
proof -
  have "\<exists>d t. Deploy_s (service (answers [node_in Manageable, node_in Available]
        (None, Some ''connection refused''))) fresh_s (Some Drained) = Some (Panicked d t)"
    by (simp add: run_defs examples state_names State_s_defs)
  moreover have "\<exists>d t. Deploy (service (answers [node_in Manageable, node_in Available]
        (poll_fails ''connection refused''))) fresh (Some Drained)
      = Some (Returned (Some ''connection refused'') d t)
      \<and> Error d = Some ''connection refused''"
    by (simp add: run_defs examples state_names percents)
  ultimately show ?thesis
    unfolding failed_poll_run_s by (simp add: fresh_s_def)
qed

subsection \<open>A nil progress channel\<close>

text \<open>
  The state-struct revision, started without a channel on a node that is manageable,
  then available, then deploying: \<open>waitDeploy\<close> sends on the nil channel.
\<close>

lemma nil_channel_run_s:
  "Deploy_s (service (answers [node_in Manageable, node_in Available] (node_in Deploying)))
      fresh_s None
  = Some (Blocked (fresh_s\<lparr>currentState_s := StateWaitDeploy_s\<rparr>)
     [CallUpdate ''1be26c0b'' (UpdateOpts_s fresh_s),
      CallChangeProvisionState ''1be26c0b'' ''manage'' [], CallGet ''1be26c0b'',
      CallChangeProvisionState ''1be26c0b'' ''provide'' [], CallGet ''1be26c0b'',
      CallChangeProvisionState ''1be26c0b'' ''active'' ''H4sIAAAA'', CallGet ''1be26c0b''])"
  by (simp add: run_defs examples state_names State_s_defs)

text \<open>
  The integer-channel revision, started without a channel, sends on the channel it
  made for itself, which has no receiver: whatever the service answers and whatever
  the deployment holds, the run is blocked before any event.
\<close>

lemma nil_channel_blocks:
  "\<exists>d'. Deploy rem d None = Some (Blocked d' [])"
  by (cases "Error d") (simp_all add: run_defs)

text \<open>
  C9. The claim is that a send happens only when the caller supplied a channel, and
  that a run started with a nil channel reaches a terminal state without attempting a
  send. In the state-struct revision the run above attempts a send on the nil channel
  in \<open>waitDeploy\<close> and is blocked there for ever, with the state still WAIT_DEPLOY. In
  the integer-channel revision every run started with a nil channel is blocked at its
  first send.
\<close>

theorem nil_channel_send_blocks:
  "(\<exists>d t. Deploy_s (service (answers [node_in Manageable, node_in Available]
        (node_in Deploying))) fresh_s None = Some (Blocked d t)
      \<and> status_s d = None \<and> currentState_s d = StateWaitDeploy_s)
   \<and> (\<forall>rem d. \<exists>d'. Deploy rem d None = Some (Blocked d' []))"
  unfolding nil_channel_run_s using nil_channel_blocks by (simp add: fresh_s_def)

subsection \<open>The last value of a run that ends with an error\<close>

text \<open>
  C10. The claim is that in every run that ends with an error the last value sent
  before the close carries the percentage 100. On the run that finds the node in
  "clean failed" while waiting for "available", \<open>Deploy\<close> returns an error and
  closes the channel, and the last value sent is 20 in the integer-channel revision
  and the state WAIT_PROVIDE with the percentage 35 in the state-struct revision:
  \<open>waitProvide\<close> returns without going through \<open>nextState\<close>.
\<close>

theorem error_run_last_sent_below_100:
  "(\<exists>e d t. Deploy (service (answers [node_in Manageable] (node_in ''clean failed''))) fresh
        (Some Drained) = Some (Returned (Some e) d t)
      \<and> sends t = [0, 0, 0, 10, 15, 20] \<and> last t = Closed \<and> last (sends t) = 20)
   \<and> (\<exists>e d t. Deploy_s (service (answers [node_in Manageable] (node_in ''clean failed''))) fresh_s
        (Some Drained) = Some (Returned (Some e) d t)
      \<and> sends t = [StateBegin_s, StateConfigure_s, StateManage_s, StateWaitManage_s,
           StateProvide_s, StateWaitProvide_s]
      \<and> last t = Closed \<and> Percentage_s (last (sends t)) = 35)"
  unfolding provide_failed_run provide_failed_run_s by (simp add: StateWaitProvide_s_def)

end
